theory Spec2Isabelle
  imports
    Main
    "HOL-Library.Word"
    "HOL-Library.List_Lexorder"
    "HOL-Library.Char_ord"
    "HOL-Library.Product_Lexorder"
    "HOL-Library.Multiset"
begin

unbundle bit_operations_syntax

section \<open>Common types\<close>

text \<open>
  Page, record, table, column and index identifiers are unsigned machine integers in the
  source. No arithmetic that could overflow is done on page and record identifiers by the
  code modelled here, so they are natural numbers; \<open>INVALID_PAGE_ID\<close> is 0. The two
  counters on which the code does add (\<open>schema_version\<close>, \<open>ordinal_position\<close>) are 32-bit
  words below.
\<close>

type_synonym page_id_t = nat
type_synonym record_id_t = nat
type_synonym key_t = "8 word list"

definition INVALID_PAGE_ID :: page_id_t where
  "INVALID_PAGE_ID = 0"

datatype StatusCode =
    IO_ERROR | PAGE_FULL | PAGE_NOT_FOUND | INVALID_PAGE_TYPE | INVALID_RECORD_FORMAT
  | RECORD_TOO_LARGE | RECORD_NOT_FOUND
  | SYNTAX_ERROR | TABLE_NOT_FOUND | TABLE_EXISTS | COLUMN_NOT_FOUND | DUPLICATE_COLUMN
  | INVALID_CONSTRAINT | TYPE_ERROR
  | DUPLICATE_KEY | INDEX_NOT_FOUND
  | NOT_IMPLEMENTED | INTERNAL_ERROR | INVALID_ARGUMENT | OUT_OF_RANGE

datatype PageType = INVALID | METADATA | DATA | INDEX

section \<open>B+ tree keys: \<open>BPlusTree::CompareKeys\<close>\<close>

text \<open>
  \<open>std::memcmp\<close> over the common prefix: bytes compare as unsigned values; only the sign
  of the result is specified, so the model returns -1, 0 or 1.
\<close>

fun memcmp :: "key_t \<Rightarrow> key_t \<Rightarrow> int" where
  "memcmp [] ys = 0"
| "memcmp (x # xs) [] = 0"
| "memcmp (x # xs) (y # ys) = (if x < y then - 1 else if y < x then 1 else memcmp xs ys)"

definition CompareKeys :: "key_t \<Rightarrow> key_t \<Rightarrow> int" where
  "CompareKeys lhs rhs =
     (let min_len = min (length lhs) (length rhs);
          cmp = (if min_len > 0 then memcmp (take min_len lhs) (take min_len rhs) else 0)
      in if min_len > 0 \<and> cmp \<noteq> 0 then cmp
         else if length lhs < length rhs then - 1
         else if length lhs > length rhs then 1
         else 0)"

section \<open>B+ tree node and its page encoding\<close>

datatype NodeType = INTERNAL | LEAF

text \<open>A leaf entry is (key, value); an internal entry is (key, child to the right).\<close>

type_synonym LeafEntry = "key_t \<times> record_id_t"
type_synonym InternalEntry = "key_t \<times> page_id_t"

record BPlusTreeNode =
  node_type :: NodeType
  page_id :: page_id_t
  parent_page_id :: page_id_t
  next_leaf :: page_id_t
  prev_leaf :: page_id_t
  leaf_entries :: "LeafEntry list"
  internal_entries :: "InternalEntry list"
  children :: "page_id_t list"

definition MakeLeaf :: "page_id_t \<Rightarrow> BPlusTreeNode" where
  "MakeLeaf pid = \<lparr>node_type = LEAF, page_id = pid, parent_page_id = INVALID_PAGE_ID,
      next_leaf = INVALID_PAGE_ID, prev_leaf = INVALID_PAGE_ID,
      leaf_entries = [], internal_entries = [], children = []\<rparr>"

definition MakeInternal :: "page_id_t \<Rightarrow> BPlusTreeNode" where
  "MakeInternal pid = \<lparr>node_type = INTERNAL, page_id = pid, parent_page_id = INVALID_PAGE_ID,
      next_leaf = INVALID_PAGE_ID, prev_leaf = INVALID_PAGE_ID,
      leaf_entries = [], internal_entries = [], children = []\<rparr>"

definition key_count :: "BPlusTreeNode \<Rightarrow> nat" where
  "key_count n = (if node_type n = LEAF then length (leaf_entries n)
                  else length (internal_entries n))"

text \<open>
  The constants of \<open>common/config.h\<close> and \<open>storage/page.h\<close> are not part of the
  sources at hand; they are parameters of the model.
\<close>

record config =
  BTREE_MAX_KEYS :: nat
  MAX_KEY_LENGTH :: nat
  kPageSize :: nat
  kPageHeaderSize :: nat
  HeaderSize :: nat
  kSlotEntrySize :: nat

definition kNodeMagic :: nat where
  "kNodeMagic = 0x4B5A4958"

record RawHeader =
  magic :: nat
  raw_node_type :: nat
  raw_key_count :: nat
  raw_parent_page_id :: page_id_t
  raw_next_leaf_page_id :: page_id_t
  raw_prev_leaf_page_id :: page_id_t
  key_data_offset :: nat

text \<open>
  A page: the fields of its page header that the node code reads, the node header that
  \<open>memcpy\<close> moves to and from \<open>node_base(page)\<close>, and the bytes of the page addressed
  from the start of the page. Multi-byte integers are little-endian.
\<close>

record Page =
  page_type :: PageType
  hdr_page_id :: page_id_t
  node_header :: RawHeader
  mem :: "nat \<Rightarrow> 8 word"

definition u16 :: "nat \<Rightarrow> nat" where
  "u16 n = n mod 65536"

definition size_sub :: "nat \<Rightarrow> nat \<Rightarrow> nat" where
  \<comment> \<open>subtraction on \<open>size_t\<close>: wraps modulo \<open>2^64\<close>\<close>
  "size_sub a b = (a + 2 ^ 64 - b mod 2 ^ 64) mod 2 ^ 64"

definition le_bytes :: "nat \<Rightarrow> nat \<Rightarrow> 8 word list" where
  "le_bytes n v = map (\<lambda>i. of_nat (v div 256 ^ i)) [0..<n]"

fun write_bytes :: "nat \<Rightarrow> 8 word list \<Rightarrow> (nat \<Rightarrow> 8 word) \<Rightarrow> (nat \<Rightarrow> 8 word)" where
  "write_bytes off [] m = m"
| "write_bytes off (b # bs) m = write_bytes (Suc off) bs (m(off := b))"

definition read_bytes :: "nat \<Rightarrow> nat \<Rightarrow> (nat \<Rightarrow> 8 word) \<Rightarrow> 8 word list" where
  "read_bytes off n m = map m [off..<off + n]"

definition read_le :: "nat \<Rightarrow> nat \<Rightarrow> (nat \<Rightarrow> 8 word) \<Rightarrow> nat" where
  "read_le off n m = foldr (\<lambda>b acc. unat b + 256 * acc) (read_bytes off n m) 0"

subsection \<open>\<open>BPlusTreeNode::Serialize\<close>\<close>

text \<open>The first loop of the leaf branch: every key is checked, then its value is written.\<close>

fun serialize_leaf_entries ::
  "config \<Rightarrow> nat \<Rightarrow> LeafEntry list \<Rightarrow> (nat \<Rightarrow> 8 word) \<Rightarrow> StatusCode + (nat \<Rightarrow> 8 word)" where
  "serialize_leaf_entries cfg at [] m = Inr m"
| "serialize_leaf_entries cfg at ((k, v) # es) m =
     (if length k > MAX_KEY_LENGTH cfg then Inl INVALID_ARGUMENT
      else serialize_leaf_entries cfg (at + 8) es (write_bytes at (le_bytes 8 v) m))"

fun serialize_children :: "nat \<Rightarrow> page_id_t list \<Rightarrow> (nat \<Rightarrow> 8 word) \<Rightarrow> (nat \<Rightarrow> 8 word)" where
  "serialize_children at [] m = m"
| "serialize_children at (c # cs) m = serialize_children (at + 4) cs (write_bytes at (le_bytes 4 c) m)"

fun check_internal_entries :: "config \<Rightarrow> InternalEntry list \<Rightarrow> StatusCode option" where
  "check_internal_entries cfg [] = None"
| "check_internal_entries cfg ((k, c) # es) =
     (if length k > MAX_KEY_LENGTH cfg then Some INVALID_ARGUMENT
      else check_internal_entries cfg es)"

text \<open>
  The key-writing loop: \<open>key_data_ptr\<close> moves down from the page end; \<open>offs\<close> is the
  address of \<open>offsets[i]\<close>. It returns the memory and the final \<open>key_data_ptr\<close>.
\<close>

fun serialize_keys ::
  "config \<Rightarrow> nat \<Rightarrow> nat \<Rightarrow> nat \<Rightarrow> key_t list \<Rightarrow> (nat \<Rightarrow> 8 word)
     \<Rightarrow> StatusCode + ((nat \<Rightarrow> 8 word) \<times> nat)" where
  "serialize_keys cfg pos offs key_data_ptr [] m = Inr (m, key_data_ptr)"
| "serialize_keys cfg pos offs key_data_ptr (k # ks) m =
     (let len = u16 (length k);
          p1 = size_sub key_data_ptr len
      in if p1 < pos then Inl RECORD_TOO_LARGE
         else let m1 = write_bytes p1 (take len k) m;
                  p2 = size_sub p1 2
              in if p2 < pos then Inl RECORD_TOO_LARGE
                 else let m2 = write_bytes p2 (le_bytes 2 len) m1;
                          m3 = write_bytes offs (le_bytes 2 (u16 (size_sub p2 (kPageHeaderSize cfg)))) m2
                      in serialize_keys cfg pos (offs + 2) p2 ks m3)"

definition Serialize :: "config \<Rightarrow> BPlusTreeNode \<Rightarrow> StatusCode + Page" where
  "Serialize cfg n =
     (if page_id n = INVALID_PAGE_ID then Inl INVALID_ARGUMENT
      else
        let keys = key_count n in
        if keys > BTREE_MAX_KEYS cfg then Inl INVALID_ARGUMENT
        else
          let header = \<lparr>magic = kNodeMagic,
                        raw_node_type = (if node_type n = LEAF then 1 else 0),
                        raw_key_count = u16 keys,
                        raw_parent_page_id = parent_page_id n,
                        raw_next_leaf_page_id = (if node_type n = LEAF then next_leaf n else INVALID_PAGE_ID),
                        raw_prev_leaf_page_id = (if node_type n = LEAF then prev_leaf n else INVALID_PAGE_ID),
                        key_data_offset = 0\<rparr>;
              pos = kPageHeaderSize cfg + HeaderSize cfg;
              m0 = (\<lambda>_. 0);
              finish = (\<lambda>pos1 key_bytes m1.
                 case serialize_keys cfg (pos1 + keys * 2) pos1 (kPageSize cfg) key_bytes m1 of
                   Inl e \<Rightarrow> Inl e
                 | Inr (m2, key_data_ptr) \<Rightarrow>
                     Inr \<lparr>page_type = INDEX, hdr_page_id = page_id n,
                          node_header = header\<lparr>key_data_offset :=
                             u16 (size_sub key_data_ptr (kPageHeaderSize cfg))\<rparr>,
                          mem = m2\<rparr>)
          in if node_type n = LEAF then
               (if length (leaf_entries n) \<noteq> keys then Inl INVALID_ARGUMENT
                else case serialize_leaf_entries cfg pos (leaf_entries n) m0 of
                       Inl e \<Rightarrow> Inl e
                     | Inr m1 \<Rightarrow> finish (pos + keys * 8) (map fst (leaf_entries n)) m1)
             else
               (if length (internal_entries n) \<noteq> keys then Inl INVALID_ARGUMENT
                else if length (children n) \<noteq> keys + 1 then Inl INVALID_ARGUMENT
                else
                  let m1 = serialize_children pos (children n) m0 in
                  case check_internal_entries cfg (internal_entries n) of
                    Some e \<Rightarrow> Inl e
                  | None \<Rightarrow> finish (pos + length (children n) * 4)
                              (map fst (internal_entries n)) m1))"

subsection \<open>\<open>BPlusTreeNode::ReadHeader\<close> and \<open>Deserialize\<close>\<close>

definition ReadHeader :: "config \<Rightarrow> Page \<Rightarrow> StatusCode + RawHeader" where
  "ReadHeader cfg page =
     (if page_type page \<noteq> INDEX then Inl INVALID_PAGE_TYPE
      else
        let header = node_header page in
        if magic header \<noteq> kNodeMagic then Inl INVALID_RECORD_FORMAT
        else if raw_node_type header > 1 then Inl INVALID_RECORD_FORMAT
        else if raw_key_count header > BTREE_MAX_KEYS cfg then Inl INVALID_RECORD_FORMAT
        else
          let min_offset = u16 (HeaderSize cfg);
              max_offset = u16 (kPageSize cfg - kPageHeaderSize cfg)
          in if key_data_offset header < min_offset \<or> key_data_offset header > max_offset
             then Inl INVALID_RECORD_FORMAT
             else Inr header)"

text \<open>Reading the key of entry \<open>i\<close>: its offset is \<open>offsets[i]\<close>, stored at \<open>offs + 2 * i\<close>.\<close>

definition read_key :: "config \<Rightarrow> Page \<Rightarrow> nat \<Rightarrow> nat \<Rightarrow> StatusCode + key_t" where
  "read_key cfg page offs i =
     (let key_offset = read_le (offs + 2 * i) 2 (mem page) in
      if key_offset < HeaderSize cfg \<or> key_offset \<ge> kPageSize cfg - kPageHeaderSize cfg
      then Inl INVALID_RECORD_FORMAT
      else
        let key_ptr = kPageHeaderSize cfg + key_offset;
            len = read_le key_ptr 2 (mem page)
        in if len > MAX_KEY_LENGTH cfg \<or> key_ptr + 2 + len > kPageSize cfg
           then Inl INVALID_RECORD_FORMAT
           else Inr (read_bytes (key_ptr + 2) len (mem page)))"

fun deserialize_leaf ::
  "config \<Rightarrow> Page \<Rightarrow> nat \<Rightarrow> nat \<Rightarrow> nat list \<Rightarrow> StatusCode + LeafEntry list" where
  "deserialize_leaf cfg page vals offs [] = Inr []"
| "deserialize_leaf cfg page vals offs (i # is) =
     (case read_key cfg page offs i of
        Inl e \<Rightarrow> Inl e
      | Inr k \<Rightarrow>
         (case deserialize_leaf cfg page vals offs is of
            Inl e \<Rightarrow> Inl e
          | Inr es \<Rightarrow> Inr ((k, read_le (vals + 8 * i) 8 (mem page)) # es)))"

fun deserialize_internal ::
  "config \<Rightarrow> Page \<Rightarrow> page_id_t list \<Rightarrow> nat \<Rightarrow> nat list \<Rightarrow> StatusCode + InternalEntry list" where
  "deserialize_internal cfg page cs offs [] = Inr []"
| "deserialize_internal cfg page cs offs (i # is) =
     (case read_key cfg page offs i of
        Inl e \<Rightarrow> Inl e
      | Inr k \<Rightarrow>
         (case deserialize_internal cfg page cs offs is of
            Inl e \<Rightarrow> Inl e
          | Inr es \<Rightarrow> Inr ((k, cs ! (i + 1)) # es)))"

definition Deserialize :: "config \<Rightarrow> Page \<Rightarrow> StatusCode + BPlusTreeNode" where
  "Deserialize cfg page =
     (case ReadHeader cfg page of
        Inl e \<Rightarrow> Inl e
      | Inr header \<Rightarrow>
          let node = \<lparr>node_type = (if raw_node_type header = 1 then LEAF else INTERNAL),
                      page_id = hdr_page_id page,
                      parent_page_id = raw_parent_page_id header,
                      next_leaf = raw_next_leaf_page_id header,
                      prev_leaf = raw_prev_leaf_page_id header,
                      leaf_entries = [], internal_entries = [], children = []\<rparr>;
              keys = raw_key_count header;
              pos = kPageHeaderSize cfg + HeaderSize cfg
          in if keys = 0 then Inr node
             else if node_type node = LEAF then
               (case deserialize_leaf cfg page pos (pos + keys * 8) [0..<keys] of
                  Inl e \<Rightarrow> Inl e
                | Inr es \<Rightarrow> Inr (node\<lparr>leaf_entries := es\<rparr>))
             else
               (let cs = map (\<lambda>i. read_le (pos + 4 * i) 4 (mem page)) [0..<keys + 1] in
                case deserialize_internal cfg page cs (pos + (keys + 1) * 4) [0..<keys] of
                  Inl e \<Rightarrow> Inl e
                | Inr es \<Rightarrow> Inr (node\<lparr>internal_entries := es, children := cs\<rparr>)))"

section \<open>SELECT post-processing (\<open>DMLExecutor::select\<close>)\<close>

text \<open>
  \<open>Value\<close> and \<open>compare()\<close> live in \<open>common/value.h\<close>, which is not part of the sources
  at hand. The executor code uses four operations of a value; they are parameters of the
  model, so every result below holds for whatever \<open>compare\<close> does.
\<close>

datatype CompareResult = Less | Equal | Greater | Unknown

record 'v value_ops =
  is_null :: "'v \<Rightarrow> bool"
  compare :: "'v \<Rightarrow> 'v \<Rightarrow> CompareResult"
  to_string :: "'v \<Rightarrow> string"
  type_of :: "'v \<Rightarrow> nat"

record OrderTerm =
  value_index :: nat
  ascending :: bool
  term_column_id :: nat

text \<open>
  The comparator lambda of the ORDER BY sort. A row holds one value per bound column and
  \<open>value_index\<close> was resolved against the bound columns, so the reads are in range.
\<close>

fun comparator :: "'v value_ops \<Rightarrow> OrderTerm list \<Rightarrow> 'v list \<Rightarrow> 'v list \<Rightarrow> bool" where
  "comparator ops [] lhs rhs = False"
| "comparator ops (term # terms) lhs rhs =
     (let lv = lhs ! value_index term;
          rv = rhs ! value_index term;
          lhs_null = is_null ops lv;
          rhs_null = is_null ops rv
      in if lhs_null \<noteq> rhs_null then \<not> lhs_null
         else (case compare ops lv rv of
                 Less \<Rightarrow> ascending term
               | Greater \<Rightarrow> \<not> ascending term
               | _ \<Rightarrow> comparator ops terms lhs rhs))"

text \<open>
  \<open>std::stable_sort\<close>: a stable insertion sort. An element is put in front of the first
  later element that is not strictly before it, so equivalent elements keep their order.
\<close>

fun stable_insert :: "('a \<Rightarrow> 'a \<Rightarrow> bool) \<Rightarrow> 'a \<Rightarrow> 'a list \<Rightarrow> 'a list" where
  "stable_insert lt x [] = [x]"
| "stable_insert lt x (y # ys) = (if lt y x then y # stable_insert lt x ys else x # y # ys)"

fun stable_sort :: "('a \<Rightarrow> 'a \<Rightarrow> bool) \<Rightarrow> 'a list \<Rightarrow> 'a list" where
  "stable_sort lt [] = []"
| "stable_sort lt (x # xs) = stable_insert lt x (stable_sort lt xs)"

text \<open>\<open>std::to_string\<close> of a non-negative \<open>int\<close>.\<close>

fun nat_to_string :: "nat \<Rightarrow> string" where
  "nat_to_string n =
     (if n < 10 then [char_of (48 + n)]
      else nat_to_string (n div 10) @ [char_of (48 + n mod 10)])"

declare nat_to_string.simps [simp del]

definition value_signature :: "'v value_ops \<Rightarrow> 'v \<Rightarrow> string" where
  "value_signature ops v =
     nat_to_string (type_of ops v) @ ''|'' @ (if is_null ops v then ''NULL'' else to_string ops v)"

fun row_signature_loop :: "'v value_ops \<Rightarrow> 'v list \<Rightarrow> nat list \<Rightarrow> bool \<Rightarrow> string \<Rightarrow> string" where
  "row_signature_loop ops row [] first key = key"
| "row_signature_loop ops row (index # projection) first key =
     row_signature_loop ops row projection False
       ((if \<not> first then key @ [char_of (31::nat)] else key) @ value_signature ops (row ! index))"

definition row_signature :: "'v value_ops \<Rightarrow> 'v list \<Rightarrow> nat list \<Rightarrow> string" where
  "row_signature ops row projection = row_signature_loop ops row projection True []"

text \<open>The DISTINCT loop: \<open>seen.insert(key).second\<close> is true when the key is new.\<close>

fun distinct_loop :: "(nat \<Rightarrow> string) \<Rightarrow> string set \<Rightarrow> nat list \<Rightarrow> nat list" where
  "distinct_loop sig seen [] = []"
| "distinct_loop sig seen (idx # idxs) =
     (if sig idx \<in> seen then distinct_loop sig seen idxs
      else idx # distinct_loop sig (insert (sig idx) seen) idxs)"

definition SIZE_MAX :: nat where
  "SIZE_MAX = 2 ^ 64 - 1"

definition select_limit :: "int option \<Rightarrow> nat" where
  "select_limit l = (case l of Some n \<Rightarrow> (if n \<ge> 0 then nat n else SIZE_MAX) | None \<Rightarrow> SIZE_MAX)"

text \<open>
  The tail of \<open>select\<close> for a statement without aggregates, from \<open>if (limit == 0)\<close> on:
  \<open>filtered_rows\<close> are the rows that passed WHERE, \<open>rows_already_sorted\<close> says that the
  index access path delivered them in the final order.
\<close>

definition select_postprocess ::
  "'v value_ops \<Rightarrow> OrderTerm list \<Rightarrow> bool \<Rightarrow> bool \<Rightarrow> nat list \<Rightarrow> nat \<Rightarrow> 'v list list
     \<Rightarrow> string list list" where
  "select_postprocess ops order_terms rows_already_sorted distinct_flag projection limit filtered_rows =
     (if limit = 0 then []
      else
        let row_indices0 = [0..<length filtered_rows];
            row_indices1 =
              (if order_terms \<noteq> [] \<and> \<not> rows_already_sorted
               then stable_sort (\<lambda>lhs_idx rhs_idx.
                        comparator ops order_terms (filtered_rows ! lhs_idx) (filtered_rows ! rhs_idx))
                      row_indices0
               else row_indices0);
            row_indices2 =
              (if distinct_flag
               then distinct_loop (\<lambda>idx. row_signature ops (filtered_rows ! idx) projection) {} row_indices1
               else row_indices1);
            row_indices3 =
              (if length row_indices2 > limit then take limit row_indices2 else row_indices2)
        in map (\<lambda>idx. map (\<lambda>proj_idx. to_string ops (filtered_rows ! idx ! proj_idx)) projection)
             row_indices3)"

text \<open>
  A value domain for concrete runs: nullable integers of one type, compared as integers,
  a NULL operand giving \<open>Unknown\<close>, printed in decimal.
\<close>

definition int_to_string :: "int \<Rightarrow> string" where
  "int_to_string i = (if i < 0 then ''-'' @ nat_to_string (nat (- i)) else nat_to_string (nat i))"

definition int_ops :: "int option value_ops" where
  "int_ops = \<lparr>is_null = (\<lambda>v. v = None),
              compare = (\<lambda>a b. case (a, b) of
                            (Some x, Some y) \<Rightarrow> (if x < y then Less else if y < x then Greater else Equal)
                          | _ \<Rightarrow> Unknown),
              to_string = (\<lambda>v. case v of None \<Rightarrow> ''NULL'' | Some x \<Rightarrow> int_to_string x),
              type_of = (\<lambda>v. 2)\<rparr>"

text \<open>
  A second value domain: nullable strings of type VARCHAR, compared as character strings
  and printed as their text; NULL prints as \<open>NULL\<close>, as the engine tests expect of
  \<open>to_string\<close>.
\<close>

definition text_ops :: "string option value_ops" where
  "text_ops = \<lparr>is_null = (\<lambda>v. v = None),
               compare = (\<lambda>a b. case (a, b) of
                             (Some x, Some y) \<Rightarrow> (if x < y then Less else if y < x then Greater else Equal)
                           | _ \<Rightarrow> Unknown),
               to_string = (\<lambda>v. case v of None \<Rightarrow> ''NULL'' | Some x \<Rightarrow> x),
               type_of = (\<lambda>v. 6)\<rparr>"

text \<open>
  Two rows tie on an ORDER BY term when the comparator falls through to the next term:
  equal NULL status and \<open>compare\<close> neither \<open>Less\<close> nor \<open>Greater\<close>, in both directions.
\<close>

definition ties :: "'v value_ops \<Rightarrow> OrderTerm \<Rightarrow> 'v list \<Rightarrow> 'v list \<Rightarrow> bool" where
  "ties ops u a b \<longleftrightarrow>
     is_null ops (a ! value_index u) = is_null ops (b ! value_index u)
     \<and> compare ops (a ! value_index u) (b ! value_index u) \<notin> {Less, Greater}
     \<and> compare ops (b ! value_index u) (a ! value_index u) \<notin> {Less, Greater}"

section \<open>Schema entries and row encoding (\<open>DMLExecutor::encode_row\<close>)\<close>

text \<open>
  \<open>DataType\<close>, \<open>ColumnDef\<close> and \<open>ColumnConstraint\<close> are declared in \<open>common/types.h\<close> and
  the catalog entries in \<open>catalog/schema.h\<close>; their fields are taken from the uses in the
  sources at hand. Field names that two structs share carry a prefix here.
\<close>

datatype DataType =
    NULL_TYPE | BOOLEAN | INTEGER | BIGINT | FLOAT | DOUBLE | VARCHAR | TEXT | DATE | TIMESTAMP

record ColumnConstraint =
  not_null :: bool
  primary_key :: bool
  unique_c :: bool
  default_literal :: "string option"

record ColumnDef =
  col_id :: nat
  col_name :: string
  col_type :: DataType
  col_length :: nat
  col_constraint :: ColumnConstraint

record ColumnCatalogEntry =
  table_id :: nat
  column_id :: nat
  ordinal_position :: nat
  schema_version :: nat
  is_dropped :: bool
  column :: ColumnDef

datatype LiteralKind = NULL_LITERAL | LIT_INTEGER | LIT_DOUBLE | LIT_STRING | LIT_BOOLEAN

record LiteralValue =
  kind :: LiteralKind
  literal_text :: string
  bool_value :: bool

record Field =
  field_type :: DataType
  field_is_null :: bool
  payload :: "8 word list"

text \<open>
  The record codec (\<open>storage/record.h\<close>), \<open>parse_date\<close> and the number parsers of the
  standard library are not part of the sources at hand: they are parameters. A parser
  returns \<open>None\<close> where the original throws or returns no value. \<open>'d\<close> stands for
  \<open>double\<close>.
\<close>

record 'd record_codec =
  stoll :: "string \<Rightarrow> int option"
  stod :: "string \<Rightarrow> 'd option"
  parse_date :: "string \<Rightarrow> int option"
  from_bool :: "bool \<Rightarrow> Field"
  from_int32 :: "int \<Rightarrow> Field"
  from_int64 :: "int \<Rightarrow> Field"
  from_double :: "'d \<Rightarrow> Field"
  from_date :: "int \<Rightarrow> Field"
  from_string :: "string \<Rightarrow> Field"
  encode :: "Field list \<Rightarrow> 8 word list"

text \<open>
  \<open>value_lookup.emplace(column_names[i], &row.values[i])\<close> for every listed name:
  \<open>emplace\<close> keeps the first value of a name. \<open>insert_into\<close> calls \<open>encode_row\<close> only
  with as many values as names.
\<close>

fun build_value_lookup ::
  "string list \<Rightarrow> LiteralValue list \<Rightarrow> (string \<rightharpoonup> LiteralValue) \<Rightarrow> (string \<rightharpoonup> LiteralValue)" where
  "build_value_lookup (n # ns) (v # vs) m =
     build_value_lookup ns vs (if m n = None then m(n \<mapsto> v) else m)"
| "build_value_lookup ns vs m = m"

text \<open>The body of the loop over the columns, once the literal of the column is found.\<close>

definition encode_field :: "'d record_codec \<Rightarrow> ColumnDef \<Rightarrow> LiteralValue \<Rightarrow> StatusCode + Field" where
  "encode_field rc col literal =
     (if kind literal = NULL_LITERAL then
        (if not_null (col_constraint col) then Inl INVALID_CONSTRAINT
         else Inr \<lparr>field_type = col_type col, field_is_null = True, payload = []\<rparr>)
      else
        (case col_type col of
           BOOLEAN \<Rightarrow>
             (if kind literal \<noteq> LIT_BOOLEAN then Inl TYPE_ERROR
              else Inr (from_bool rc (bool_value literal)))
         | INTEGER \<Rightarrow>
             (if kind literal \<noteq> LIT_INTEGER then Inl TYPE_ERROR
              else case stoll rc (literal_text literal) of
                     None \<Rightarrow> Inl TYPE_ERROR
                   | Some v \<Rightarrow>
                       (if v < - (2 ^ 31) \<or> v > 2 ^ 31 - 1 then Inl TYPE_ERROR
                        else Inr (from_int32 rc v)))
         | BIGINT \<Rightarrow>
             (if kind literal \<noteq> LIT_INTEGER then Inl TYPE_ERROR
              else case stoll rc (literal_text literal) of
                     None \<Rightarrow> Inl TYPE_ERROR
                   | Some v \<Rightarrow> Inr (from_int64 rc v))
         | DOUBLE \<Rightarrow>
             (if kind literal \<noteq> LIT_DOUBLE \<and> kind literal \<noteq> LIT_INTEGER then Inl TYPE_ERROR
              else case stod rc (literal_text literal) of
                     None \<Rightarrow> Inl TYPE_ERROR
                   | Some v \<Rightarrow> Inr (from_double rc v))
         | DATE \<Rightarrow>
             (if kind literal \<noteq> LIT_STRING then Inl TYPE_ERROR
              else case parse_date rc (literal_text literal) of
                     None \<Rightarrow> Inl TYPE_ERROR
                   | Some v \<Rightarrow> Inr (from_date rc v))
         | VARCHAR \<Rightarrow>
             (if kind literal \<noteq> LIT_STRING then Inl TYPE_ERROR
              else if col_length col > 0 \<and> length (literal_text literal) > col_length col
                   then Inl INVALID_CONSTRAINT
              else Inr (from_string rc (literal_text literal)))
         | TEXT \<Rightarrow>
             (if kind literal \<noteq> LIT_STRING then Inl TYPE_ERROR
              else Inr (from_string rc (literal_text literal)))
         | _ \<Rightarrow> Inl TYPE_ERROR))"

fun encode_fields ::
  "'d record_codec \<Rightarrow> ColumnCatalogEntry list \<Rightarrow> (string \<rightharpoonup> LiteralValue) \<Rightarrow> StatusCode + Field list" where
  "encode_fields rc [] value_lookup = Inr []"
| "encode_fields rc (entry # columns) value_lookup =
     (case value_lookup (col_name (column entry)) of
        None \<Rightarrow> Inl COLUMN_NOT_FOUND
      | Some literal \<Rightarrow>
          (case encode_field rc (column entry) literal of
             Inl e \<Rightarrow> Inl e
           | Inr fld \<Rightarrow>
               (case encode_fields rc columns value_lookup of
                  Inl e \<Rightarrow> Inl e
                | Inr flds \<Rightarrow> Inr (fld # flds))))"

definition encode_row ::
  "'d record_codec \<Rightarrow> ColumnCatalogEntry list \<Rightarrow> LiteralValue list \<Rightarrow> string list
     \<Rightarrow> StatusCode + 8 word list" where
  "encode_row rc columns row_values column_names =
     (case encode_fields rc columns (build_value_lookup column_names row_values Map.empty) of
        Inl e \<Rightarrow> Inl e
      | Inr flds \<Rightarrow> Inr (encode rc flds))"

text \<open>
  The head of \<open>insert_into\<close>: an empty column list stands for the schema order, the list
  must have one name per active column, and every row one value per name. The result is
  the payload handed to \<open>TableHeap::insert\<close> for the row.
\<close>

definition insert_payload ::
  "'d record_codec \<Rightarrow> ColumnCatalogEntry list \<Rightarrow> string list \<Rightarrow> LiteralValue list
     \<Rightarrow> StatusCode + 8 word list" where
  "insert_payload rc columns stmt_column_names row_values =
     (if columns = [] then Inl INVALID_CONSTRAINT
      else
        let column_names = (if stmt_column_names = []
                            then map (\<lambda>c. col_name (column c)) columns
                            else stmt_column_names)
        in if length column_names \<noteq> length columns then Inl INVALID_CONSTRAINT
           else if length row_values \<noteq> length column_names then Inl INVALID_CONSTRAINT
           else encode_row rc columns row_values column_names)"

text \<open>
  The payload as the specification words it, for values given in schema order: the
  \<open>i\<close>-th field of the record is made from the \<open>i\<close>-th column of the schema and the
  \<open>i\<close>-th value, the fields are encoded in that order, and the first column whose value
  cannot be converted gives the error.
\<close>

fun fields_in_order ::
  "'d record_codec \<Rightarrow> ColumnCatalogEntry list \<Rightarrow> LiteralValue list \<Rightarrow> StatusCode + Field list" where
  "fields_in_order rc (entry # columns) (v # vs) =
     (case encode_field rc (column entry) v of
        Inl e \<Rightarrow> Inl e
      | Inr fld \<Rightarrow>
          (case fields_in_order rc columns vs of
             Inl e \<Rightarrow> Inl e
           | Inr flds \<Rightarrow> Inr (fld # flds)))"
| "fields_in_order rc columns vs = Inr []"

definition payload_in_schema_order ::
  "'d record_codec \<Rightarrow> ColumnCatalogEntry list \<Rightarrow> LiteralValue list \<Rightarrow> StatusCode + 8 word list" where
  "payload_in_schema_order rc columns schema_values =
     (if columns = [] then Inl INVALID_CONSTRAINT
      else case fields_in_order rc columns schema_values of
             Inl e \<Rightarrow> Inl e
           | Inr flds \<Rightarrow> Inr (encode rc flds))"

text \<open>
  A record codec for concrete runs, following the record layout of the specification (type
  tag, 16-bit length, payload per field); no double is parsed.
\<close>

definition type_tag :: "DataType \<Rightarrow> nat" where
  "type_tag t = (case t of NULL_TYPE \<Rightarrow> 0 | BOOLEAN \<Rightarrow> 1 | INTEGER \<Rightarrow> 2 | BIGINT \<Rightarrow> 3
                  | FLOAT \<Rightarrow> 4 | DOUBLE \<Rightarrow> 5 | VARCHAR \<Rightarrow> 6 | TEXT \<Rightarrow> 7 | DATE \<Rightarrow> 8 | TIMESTAMP \<Rightarrow> 9)"

fun digits_value :: "string \<Rightarrow> nat \<Rightarrow> nat option" where
  "digits_value [] acc = Some acc"
| "digits_value (c # cs) acc =
     (if (48::nat) \<le> of_char c \<and> (of_char c :: nat) \<le> 57
      then digits_value cs (10 * acc + ((of_char c :: nat) - 48)) else None)"

definition sample_codec :: "unit record_codec" where
  "sample_codec = \<lparr>
     stoll = (\<lambda>s. case s of [] \<Rightarrow> None | _ \<Rightarrow> map_option int (digits_value s 0)),
     stod = (\<lambda>s. None),
     parse_date = (\<lambda>s. None),
     from_bool = (\<lambda>b. \<lparr>field_type = BOOLEAN, field_is_null = False, payload = [if b then 1 else 0]\<rparr>),
     from_int32 = (\<lambda>v. \<lparr>field_type = INTEGER, field_is_null = False,
                         payload = le_bytes 4 (nat (v mod 2 ^ 32))\<rparr>),
     from_int64 = (\<lambda>v. \<lparr>field_type = BIGINT, field_is_null = False,
                         payload = le_bytes 8 (nat (v mod 2 ^ 64))\<rparr>),
     from_double = (\<lambda>d. \<lparr>field_type = DOUBLE, field_is_null = False, payload = []\<rparr>),
     from_date = (\<lambda>v. \<lparr>field_type = DATE, field_is_null = False,
                        payload = le_bytes 8 (nat (v mod 2 ^ 64))\<rparr>),
     from_string = (\<lambda>s. \<lparr>field_type = VARCHAR, field_is_null = False, payload = map of_char s\<rparr>),
     encode = (\<lambda>fs. le_bytes 2 (length fs)
                 @ concat (map (\<lambda>f. of_nat (type_tag (field_type f))
                                   # (if field_is_null f then 1 else 0)
                                   # le_bytes 2 (length (payload f)) @ payload f) fs))\<rparr>"

text \<open>A sample schema for concrete runs: \<open>(id INTEGER PRIMARY KEY, name VARCHAR(8))\<close>.\<close>

definition sample_columns :: "ColumnCatalogEntry list" where
  "sample_columns =
     [\<lparr>table_id = 1, column_id = 1, ordinal_position = 0, schema_version = 1, is_dropped = False,
       column = \<lparr>col_id = 1, col_name = ''id'', col_type = INTEGER, col_length = 0,
         col_constraint = \<lparr>not_null = True, primary_key = True, unique_c = True,
                            default_literal = None\<rparr>\<rparr>\<rparr>,
      \<lparr>table_id = 1, column_id = 2, ordinal_position = 1, schema_version = 1, is_dropped = False,
       column = \<lparr>col_id = 2, col_name = ''name'', col_type = VARCHAR, col_length = 8,
         col_constraint = \<lparr>not_null = False, primary_key = False, unique_c = False,
                            default_literal = None\<rparr>\<rparr>\<rparr>]"

section \<open>The B+ tree (\<open>storage/index/bplus_tree.cpp\<close>)\<close>

text \<open>
  A tree owns the page manager of its index file. \<open>LoadNode\<close> deserializes the page
  image and \<open>StoreNode\<close> serializes into it; the model keeps, per page, the node that the
  page image decodes to. \<open>StoreNode\<close> fails where \<open>Serialize\<close> fails, and stores the node
  as \<open>Deserialize\<close> reads it back (\<open>stored_form\<close>): an internal node keeps no leaf links,
  and the child of an internal entry is read from the child array.

  Loops and recursions that follow page links take a fuel argument; \<open>None\<close> means that the
  fuel ran out, anything else is the outcome of the original. An exception is the value
  \<open>Inl code\<close>; operations that write return the tree as it is when they return or throw.
\<close>

record BPlusTree =
  tree_pages :: "page_id_t \<Rightarrow> BPlusTreeNode option"
  tree_next_page :: page_id_t
  root_page_id :: page_id_t
  unique_flag :: bool

text \<open>
  Modelled from the spec: \<open>PageManager::new_page\<close> (\<open>storage/page_manager.cpp\<close> is not part
  of the sources at hand). An index file never frees a page, so its free list is empty and
  \<open>new_page\<close> appends: it returns the next unused page id.
\<close>

definition new_page :: "BPlusTree \<Rightarrow> page_id_t \<times> BPlusTree" where
  "new_page t = (tree_next_page t, t\<lparr>tree_next_page := Suc (tree_next_page t)\<rparr>)"

definition LoadNode :: "BPlusTree \<Rightarrow> page_id_t \<Rightarrow> StatusCode + BPlusTreeNode" where
  "LoadNode t pid = (case tree_pages t pid of None \<Rightarrow> Inl PAGE_NOT_FOUND | Some n \<Rightarrow> Inr n)"

definition stored_form :: "BPlusTreeNode \<Rightarrow> BPlusTreeNode" where
  "stored_form n =
     (if node_type n = LEAF then n\<lparr>internal_entries := [], children := []\<rparr>
      else n\<lparr>next_leaf := INVALID_PAGE_ID, prev_leaf := INVALID_PAGE_ID, leaf_entries := [],
             internal_entries := zip (map fst (internal_entries n)) (tl (children n))\<rparr>)"

definition StoreNode :: "config \<Rightarrow> BPlusTree \<Rightarrow> BPlusTreeNode \<Rightarrow> StatusCode + BPlusTree" where
  "StoreNode cfg t n =
     (case Serialize cfg n of
        Inl e \<Rightarrow> Inl e
      | Inr img \<Rightarrow> Inr (t\<lparr>tree_pages := (tree_pages t)(page_id n \<mapsto> stored_form n)\<rparr>))"

definition FindLeafIndex :: "BPlusTreeNode \<Rightarrow> key_t \<Rightarrow> nat" where
  "FindLeafIndex leaf k = length (takeWhile (\<lambda>e. CompareKeys (fst e) k < 0) (leaf_entries leaf))"

definition FindInternalChild :: "BPlusTreeNode \<Rightarrow> key_t \<Rightarrow> nat" where
  "FindInternalChild node k =
     length (takeWhile (\<lambda>e. CompareKeys (fst e) k \<le> 0) (internal_entries node))"

text \<open>\<open>children().at(i)\<close> throws \<open>std::out_of_range\<close> beyond the end.\<close>

definition child_at :: "BPlusTreeNode \<Rightarrow> nat \<Rightarrow> StatusCode + page_id_t" where
  "child_at node i = (if i < length (children node) then Inr (children node ! i) else Inl OUT_OF_RANGE)"

fun Search :: "nat \<Rightarrow> BPlusTree \<Rightarrow> page_id_t \<Rightarrow> key_t \<Rightarrow> (StatusCode + bool \<times> record_id_t) option" where
  "Search 0 t current k = None"
| "Search (Suc fuel) t current k =
     (case LoadNode t current of
        Inl e \<Rightarrow> Some (Inl e)
      | Inr node \<Rightarrow>
          if node_type node = LEAF then
            (let idx = FindLeafIndex node k in
             if idx < length (leaf_entries node) \<and> CompareKeys (fst (leaf_entries node ! idx)) k = 0
             then Some (Inr (True, snd (leaf_entries node ! idx)))
             else Some (Inr (False, 0)))
          else
            (case child_at node (FindInternalChild node k) of
               Inl e \<Rightarrow> Some (Inl e)
             | Inr child \<Rightarrow> Search fuel t child k))"

text \<open>
  In \<open>FindLeafPosition\<close> an index beyond the child array is clamped to \<open>size() - 1\<close>, which
  on an empty array wraps to \<open>SIZE_MAX\<close> and makes \<open>at\<close> throw.
\<close>

fun FindLeafPosition ::
  "nat \<Rightarrow> BPlusTree \<Rightarrow> page_id_t \<Rightarrow> key_t \<Rightarrow> (StatusCode + page_id_t \<times> nat) option" where
  "FindLeafPosition 0 t current k = None"
| "FindLeafPosition (Suc fuel) t current k =
     (case LoadNode t current of
        Inl e \<Rightarrow> Some (Inl e)
      | Inr node \<Rightarrow>
          if node_type node = LEAF then Some (Inr (current, FindLeafIndex node k))
          else
            (let child_index = FindInternalChild node k;
                 child_index = (if child_index \<ge> length (children node)
                                then size_sub (length (children node)) 1 else child_index)
             in case child_at node child_index of
                  Inl e \<Rightarrow> Some (Inl e)
                | Inr child \<Rightarrow> FindLeafPosition fuel t child k))"

fun FindLeftmostLeaf :: "nat \<Rightarrow> BPlusTree \<Rightarrow> page_id_t \<Rightarrow> (StatusCode + page_id_t) option" where
  "FindLeftmostLeaf 0 t current = None"
| "FindLeftmostLeaf (Suc fuel) t current =
     (case LoadNode t current of
        Inl e \<Rightarrow> Some (Inl e)
      | Inr node \<Rightarrow>
          if node_type node = LEAF then Some (Inr current)
          else if children node = [] then Some (Inr INVALID_PAGE_ID)
          else FindLeftmostLeaf fuel t (hd (children node)))"

text \<open>
  The \<open>for\<close> loop of \<open>ScanRange\<close> over the entries of one leaf from \<open>start_index\<close> on. The
  flag of the result says that the loop left through \<open>return results\<close>.
\<close>

fun scan_entries ::
  "key_t option \<Rightarrow> bool \<Rightarrow> key_t option \<Rightarrow> bool \<Rightarrow> LeafEntry list \<Rightarrow> record_id_t list
     \<Rightarrow> record_id_t list \<times> bool" where
  "scan_entries lower_key lower_inclusive upper_key upper_inclusive [] results = (results, False)"
| "scan_entries lower_key lower_inclusive upper_key upper_inclusive (entry # rest) results =
     (if (case lower_key of
            Some lk \<Rightarrow> (let cmp = CompareKeys (fst entry) lk in cmp < 0 \<or> (cmp = 0 \<and> \<not> lower_inclusive))
          | None \<Rightarrow> False)
      then scan_entries lower_key lower_inclusive upper_key upper_inclusive rest results
      else if (case upper_key of
                 Some uk \<Rightarrow> (let cmp = CompareKeys (fst entry) uk in cmp > 0 \<or> (cmp = 0 \<and> \<not> upper_inclusive))
               | None \<Rightarrow> False)
      then (results, True)
      else scan_entries lower_key lower_inclusive upper_key upper_inclusive rest (results @ [snd entry]))"

fun ScanRange_loop ::
  "nat \<Rightarrow> BPlusTree \<Rightarrow> key_t option \<Rightarrow> bool \<Rightarrow> key_t option \<Rightarrow> bool \<Rightarrow> page_id_t \<Rightarrow> nat
     \<Rightarrow> record_id_t list \<Rightarrow> (StatusCode + record_id_t list) option" where
  "ScanRange_loop 0 t lower_key lower_inclusive upper_key upper_inclusive current start_index results = None"
| "ScanRange_loop (Suc fuel) t lower_key lower_inclusive upper_key upper_inclusive current start_index results =
     (if current = INVALID_PAGE_ID then Some (Inr results)
      else case LoadNode t current of
             Inl e \<Rightarrow> Some (Inl e)
           | Inr node \<Rightarrow>
               if leaf_entries node = [] \<or> start_index \<ge> length (leaf_entries node)
               then ScanRange_loop fuel t lower_key lower_inclusive upper_key upper_inclusive
                      (next_leaf node) 0 results
               else (case scan_entries lower_key lower_inclusive upper_key upper_inclusive
                            (drop start_index (leaf_entries node)) results of
                       (results', True) \<Rightarrow> Some (Inr results')
                     | (results', False) \<Rightarrow>
                         ScanRange_loop fuel t lower_key lower_inclusive upper_key upper_inclusive
                           (next_leaf node) 0 results'))"

definition ScanRange ::
  "nat \<Rightarrow> BPlusTree \<Rightarrow> key_t option \<Rightarrow> bool \<Rightarrow> key_t option \<Rightarrow> bool
     \<Rightarrow> (StatusCode + record_id_t list) option" where
  "ScanRange fuel t lower_key lower_inclusive upper_key upper_inclusive =
     (case lower_key of
        Some lk \<Rightarrow>
          (case FindLeafPosition fuel t (root_page_id t) lk of
             None \<Rightarrow> None
           | Some (Inl e) \<Rightarrow> Some (Inl e)
           | Some (Inr (leaf, index)) \<Rightarrow>
               ScanRange_loop fuel t lower_key lower_inclusive upper_key upper_inclusive leaf index [])
      | None \<Rightarrow>
          (case FindLeftmostLeaf fuel t (root_page_id t) of
             None \<Rightarrow> None
           | Some (Inl e) \<Rightarrow> Some (Inl e)
           | Some (Inr leaf) \<Rightarrow>
               ScanRange_loop fuel t lower_key lower_inclusive upper_key upper_inclusive leaf 0 []))"

definition ScanEqual :: "nat \<Rightarrow> BPlusTree \<Rightarrow> key_t \<Rightarrow> (StatusCode + record_id_t list) option" where
  "ScanEqual fuel t k = ScanRange fuel t (Some k) True (Some k) True"

subsection \<open>\<open>Insert\<close>\<close>

text \<open>
  \<open>SplitLeaf\<close>: the upper half moves to the new node; the promoted key is the first key of
  the new node. The leaf that is split holds more than \<open>BTREE_MAX_KEYS\<close> entries, so the
  new node is not empty.
\<close>

definition SplitLeaf :: "BPlusTreeNode \<Rightarrow> BPlusTreeNode \<Rightarrow> BPlusTreeNode \<times> BPlusTreeNode \<times> key_t" where
  "SplitLeaf node new_node =
     (let total = length (leaf_entries node);
          split_point = total div 2;
          new_node' = new_node\<lparr>leaf_entries := drop split_point (leaf_entries node)\<rparr>;
          node' = node\<lparr>leaf_entries := take split_point (leaf_entries node)\<rparr>
      in (node', new_node', fst (hd (leaf_entries new_node'))))"

text \<open>
  \<open>SplitInternal\<close>: the pivot entry moves up; the entries and children right of it move to
  the new node, whose entries then take their child from the child array with \<open>at\<close>.
\<close>

definition SplitInternal ::
  "BPlusTreeNode \<Rightarrow> BPlusTreeNode \<Rightarrow> StatusCode + BPlusTreeNode \<times> BPlusTreeNode \<times> key_t" where
  "SplitInternal node new_node =
     (let total = length (internal_entries node);
          split_point = total div 2;
          promoted = fst (internal_entries node ! split_point);
          new_entries = drop (split_point + 1) (internal_entries node);
          new_children = drop (split_point + 1) (children node);
          node' = node\<lparr>internal_entries := take split_point (internal_entries node),
                       children := take (split_point + 1) (children node)\<rparr>
      in if new_entries \<noteq> [] \<and> length new_entries \<ge> length new_children then Inl OUT_OF_RANGE
         else Inr (node',
                   new_node\<lparr>internal_entries := zip (map fst new_entries) (tl new_children),
                            children := new_children\<rparr>,
                   promoted))"

text \<open>The leaf branch of \<open>InsertRecursive\<close>, for the loaded leaf \<open>node\<close>.\<close>

definition insert_into_leaf ::
  "config \<Rightarrow> BPlusTree \<Rightarrow> BPlusTreeNode \<Rightarrow> key_t \<Rightarrow> record_id_t
     \<Rightarrow> (StatusCode + (key_t \<times> page_id_t) option) \<times> BPlusTree" where
  "insert_into_leaf cfg t node k v =
     (let idx = FindLeafIndex node k; es = leaf_entries node in
      if idx < length es \<and> CompareKeys (fst (es ! idx)) k = 0 then
        (if unique_flag t then (Inl DUPLICATE_KEY, t)
         else case StoreNode cfg t (node\<lparr>leaf_entries := es[idx := (fst (es ! idx), v)]\<rparr>) of
                Inl e \<Rightarrow> (Inl e, t)
              | Inr t' \<Rightarrow> (Inr None, t'))
      else
        let node1 = node\<lparr>leaf_entries := take idx es @ (k, v) # drop idx es\<rparr> in
        if length (leaf_entries node1) > BTREE_MAX_KEYS cfg then
          (let (new_pid, t1) = new_page t;
               new_leaf0 = (MakeLeaf new_pid)\<lparr>parent_page_id := parent_page_id node1\<rparr>;
               (node2, new_leaf1, promoted) = SplitLeaf node1 new_leaf0;
               new_leaf2 = new_leaf1\<lparr>next_leaf := next_leaf node2, prev_leaf := page_id node2\<rparr>;
               node3 = node2\<lparr>next_leaf := page_id new_leaf2\<rparr>
           in case (if next_leaf new_leaf2 \<noteq> INVALID_PAGE_ID
                    then (case LoadNode t1 (next_leaf new_leaf2) of
                            Inl e \<Rightarrow> Inl e
                          | Inr nxt \<Rightarrow> StoreNode cfg t1 (nxt\<lparr>prev_leaf := page_id new_leaf2\<rparr>))
                    else Inr t1) of
                Inl e \<Rightarrow> (Inl e, t1)
              | Inr t2 \<Rightarrow>
                  (case StoreNode cfg t2 node3 of
                     Inl e \<Rightarrow> (Inl e, t2)
                   | Inr t3 \<Rightarrow>
                       (case StoreNode cfg t3 new_leaf2 of
                          Inl e \<Rightarrow> (Inl e, t3)
                        | Inr t4 \<Rightarrow> (Inr (Some (promoted, page_id new_leaf2)), t4))))
        else case StoreNode cfg t node1 of
               Inl e \<Rightarrow> (Inl e, t)
             | Inr t' \<Rightarrow> (Inr None, t'))"

text \<open>The loop that re-parents the children of a new internal node.\<close>

fun set_parents ::
  "config \<Rightarrow> BPlusTree \<Rightarrow> page_id_t \<Rightarrow> page_id_t list \<Rightarrow> (StatusCode + unit) \<times> BPlusTree" where
  "set_parents cfg t parent [] = (Inr (), t)"
| "set_parents cfg t parent (child_id # rest) =
     (case LoadNode t child_id of
        Inl e \<Rightarrow> (Inl e, t)
      | Inr child \<Rightarrow>
          (case StoreNode cfg t (child\<lparr>parent_page_id := parent\<rparr>) of
             Inl e \<Rightarrow> (Inl e, t)
           | Inr t' \<Rightarrow> set_parents cfg t' parent rest))"

text \<open>
  The internal branch of \<open>InsertRecursive\<close> after the recursive call returned: \<open>node\<close> is
  the internal node as loaded before the call, \<open>promoted\<close> what the call handed up.
\<close>

definition insert_into_internal ::
  "config \<Rightarrow> BPlusTree \<Rightarrow> BPlusTreeNode \<Rightarrow> nat \<Rightarrow> (key_t \<times> page_id_t) option
     \<Rightarrow> (StatusCode + (key_t \<times> page_id_t) option) \<times> BPlusTree" where
  "insert_into_internal cfg t node child_index promoted =
     (case promoted of
        None \<Rightarrow>
          (case StoreNode cfg t node of
             Inl e \<Rightarrow> (Inl e, t)
           | Inr t' \<Rightarrow> (Inr None, t'))
      | Some (promoted_key, promoted_child) \<Rightarrow>
          let node1 = node\<lparr>
                internal_entries := take child_index (internal_entries node)
                    @ (promoted_key, promoted_child) # drop child_index (internal_entries node),
                children := take (child_index + 1) (children node)
                    @ promoted_child # drop (child_index + 1) (children node)\<rparr>
          in if length (internal_entries node1) > BTREE_MAX_KEYS cfg then
               (let (new_pid, t1) = new_page t;
                    new_internal0 = (MakeInternal new_pid)\<lparr>parent_page_id := parent_page_id node1\<rparr>
                in case SplitInternal node1 new_internal0 of
                     Inl e \<Rightarrow> (Inl e, t1)
                   | Inr (node2, new_internal, out_key) \<Rightarrow>
                       (case set_parents cfg t1 (page_id new_internal) (children new_internal) of
                          (Inl e, t2) \<Rightarrow> (Inl e, t2)
                        | (Inr u, t2) \<Rightarrow>
                            (case StoreNode cfg t2 node2 of
                               Inl e \<Rightarrow> (Inl e, t2)
                             | Inr t3 \<Rightarrow>
                                 (case StoreNode cfg t3 new_internal of
                                    Inl e \<Rightarrow> (Inl e, t3)
                                  | Inr t4 \<Rightarrow> (Inr (Some (out_key, page_id new_internal)), t4)))))
             else case StoreNode cfg t node1 of
                    Inl e \<Rightarrow> (Inl e, t)
                  | Inr t' \<Rightarrow> (Inr None, t'))"

fun InsertRecursive ::
  "nat \<Rightarrow> config \<Rightarrow> BPlusTree \<Rightarrow> page_id_t \<Rightarrow> key_t \<Rightarrow> record_id_t
     \<Rightarrow> ((StatusCode + (key_t \<times> page_id_t) option) \<times> BPlusTree) option" where
  "InsertRecursive 0 cfg t pid k v = None"
| "InsertRecursive (Suc fuel) cfg t pid k v =
     (case LoadNode t pid of
        Inl e \<Rightarrow> Some (Inl e, t)
      | Inr node \<Rightarrow>
          if node_type node = LEAF then Some (insert_into_leaf cfg t node k v)
          else
            (let child_index = FindInternalChild node k in
             case child_at node child_index of
               Inl e \<Rightarrow> Some (Inl e, t)
             | Inr child_page \<Rightarrow>
                 (case InsertRecursive fuel cfg t child_page k v of
                    None \<Rightarrow> None
                  | Some (Inl e, t1) \<Rightarrow> Some (Inl e, t1)
                  | Some (Inr promoted, t1) \<Rightarrow>
                      Some (insert_into_internal cfg t1 node child_index promoted))))"

definition Insert ::
  "nat \<Rightarrow> config \<Rightarrow> BPlusTree \<Rightarrow> key_t \<Rightarrow> record_id_t \<Rightarrow> ((StatusCode + unit) \<times> BPlusTree) option" where
  "Insert fuel cfg t k v =
     (case InsertRecursive fuel cfg t (root_page_id t) k v of
        None \<Rightarrow> None
      | Some (Inl e, t1) \<Rightarrow> Some (Inl e, t1)
      | Some (Inr None, t1) \<Rightarrow> Some (Inr (), t1)
      | Some (Inr (Some (promoted_key, promoted_child)), t1) \<Rightarrow>
          (let (new_root_page, t2) = new_page t1;
               new_root = (MakeInternal new_root_page)\<lparr>
                  parent_page_id := INVALID_PAGE_ID,
                  children := [root_page_id t2, promoted_child],
                  internal_entries := [(promoted_key, promoted_child)]\<rparr>
           in case LoadNode t2 (root_page_id t2) of
                Inl e \<Rightarrow> Some (Inl e, t2)
              | Inr left_child \<Rightarrow>
                  (case StoreNode cfg t2 (left_child\<lparr>parent_page_id := new_root_page\<rparr>) of
                     Inl e \<Rightarrow> Some (Inl e, t2)
                   | Inr t3 \<Rightarrow>
                       (case LoadNode t3 promoted_child of
                          Inl e \<Rightarrow> Some (Inl e, t3)
                        | Inr right_child \<Rightarrow>
                            (case StoreNode cfg t3 (right_child\<lparr>parent_page_id := new_root_page\<rparr>) of
                               Inl e \<Rightarrow> Some (Inl e, t3)
                             | Inr t4 \<Rightarrow>
                                 (case StoreNode cfg t4 new_root of
                                    Inl e \<Rightarrow> Some (Inl e, t4)
                                  | Inr t5 \<Rightarrow> Some (Inr (), t5\<lparr>root_page_id := new_root_page\<rparr>)))))))"

text \<open>
  The constructor: a tree opened with \<open>INVALID_PAGE_ID\<close> as its root allocates a page and
  stores an empty leaf there.
\<close>

definition BPlusTree_new ::
  "config \<Rightarrow> (page_id_t \<Rightarrow> BPlusTreeNode option) \<Rightarrow> page_id_t \<Rightarrow> page_id_t \<Rightarrow> bool
     \<Rightarrow> StatusCode + BPlusTree" where
  "BPlusTree_new cfg pgs next_id root is_uniq =
     (let t = \<lparr>tree_pages = pgs, tree_next_page = next_id, root_page_id = root, unique_flag = is_uniq\<rparr>
      in if root = INVALID_PAGE_ID then
           (let (new_pid, t1) = new_page t;
                root_node = (MakeLeaf new_pid)\<lparr>parent_page_id := INVALID_PAGE_ID\<rparr>
            in case StoreNode cfg t1 root_node of
                 Inl e \<Rightarrow> Inl e
               | Inr t2 \<Rightarrow> Inr (t2\<lparr>root_page_id := new_pid\<rparr>))
         else Inr t)"

text \<open>
  A configuration for concrete runs: pages of 4096 bytes and keys of at most 255 bytes, and
  a second one in which a node splits beyond two keys. An index file starts with its
  metadata page 1, so the first node page is page 2.
\<close>

definition sample_config :: config where
  "sample_config = \<lparr>BTREE_MAX_KEYS = 256, MAX_KEY_LENGTH = 255, kPageSize = 4096,
                     kPageHeaderSize = 24, HeaderSize = 24, kSlotEntrySize = 6\<rparr>"

definition small_config :: config where
  "small_config = \<lparr>BTREE_MAX_KEYS = 2, MAX_KEY_LENGTH = 255, kPageSize = 4096,
                    kPageHeaderSize = 24, HeaderSize = 24, kSlotEntrySize = 6\<rparr>"

definition to_key :: "string \<Rightarrow> key_t" where
  "to_key s = map of_char s"

definition empty_tree :: "config \<Rightarrow> bool \<Rightarrow> BPlusTree" where
  "empty_tree cfg is_uniq =
     (case BPlusTree_new cfg (\<lambda>_. None) 2 INVALID_PAGE_ID is_uniq of
        Inr t \<Rightarrow> t
      | Inl e \<Rightarrow> \<lparr>tree_pages = (\<lambda>_. None), tree_next_page = 2, root_page_id = INVALID_PAGE_ID,
                   unique_flag = is_uniq\<rparr>)"

text \<open>Running a list of inserts, stopping at the first that throws or runs out of fuel.\<close>

fun inserts ::
  "nat \<Rightarrow> config \<Rightarrow> BPlusTree \<Rightarrow> (key_t \<times> record_id_t) list \<Rightarrow> ((StatusCode + unit) \<times> BPlusTree) option" where
  "inserts fuel cfg t [] = Some (Inr (), t)"
| "inserts fuel cfg t ((k, v) # rest) =
     (case Insert fuel cfg t k v of
        None \<Rightarrow> None
      | Some (Inl e, t1) \<Rightarrow> Some (Inl e, t1)
      | Some (Inr u, t1) \<Rightarrow> inserts fuel cfg t1 rest)"

text \<open>The inserts \<open>kvs\<close> into a fresh tree, followed by \<open>ScanEqual\<close> or \<open>ScanRange\<close>.\<close>

definition scan_equal_after ::
  "nat \<Rightarrow> config \<Rightarrow> bool \<Rightarrow> (key_t \<times> record_id_t) list \<Rightarrow> key_t \<Rightarrow> (StatusCode + record_id_t list) option" where
  "scan_equal_after fuel cfg is_uniq kvs k =
     (case inserts fuel cfg (empty_tree cfg is_uniq) kvs of
        None \<Rightarrow> None
      | Some (Inl e, t) \<Rightarrow> Some (Inl e)
      | Some (Inr u, t) \<Rightarrow> ScanEqual fuel t k)"

definition scan_range_after ::
  "nat \<Rightarrow> config \<Rightarrow> bool \<Rightarrow> (key_t \<times> record_id_t) list \<Rightarrow> key_t option \<Rightarrow> bool \<Rightarrow> key_t option \<Rightarrow> bool
     \<Rightarrow> (StatusCode + record_id_t list) option" where
  "scan_range_after fuel cfg is_uniq kvs lo li hi hi_i =
     (case inserts fuel cfg (empty_tree cfg is_uniq) kvs of
        None \<Rightarrow> None
      | Some (Inl e, t) \<Rightarrow> Some (Inl e)
      | Some (Inr u, t) \<Rightarrow> ScanRange fuel t lo li hi hi_i)"

subsection \<open>Well-formed trees\<close>

text \<open>
  The bounds of a range, in the words of the specification, over keys ordered as byte
  strings (the lexicographic order of \<open>8 word list\<close>, bytes unsigned): a lower bound
  \<open>lo\<close> admits \<open>k \<ge> lo\<close> when inclusive and \<open>k > lo\<close> when not, an upper bound \<open>hi\<close>
  admits \<open>k \<le> hi\<close> when inclusive and \<open>k < hi\<close> when not, and an absent bound admits
  every key.
\<close>

definition lower_ok :: "key_t option \<Rightarrow> bool \<Rightarrow> key_t \<Rightarrow> bool" where
  "lower_ok lo li k \<longleftrightarrow> (case lo of None \<Rightarrow> True | Some l \<Rightarrow> if li then l \<le> k else l < k)"

definition upper_ok :: "key_t option \<Rightarrow> bool \<Rightarrow> key_t \<Rightarrow> bool" where
  "upper_ok hi hi_i k \<longleftrightarrow> (case hi of None \<Rightarrow> True | Some u \<Rightarrow> if hi_i then k \<le> u else k < u)"

definition in_bounds :: "key_t option \<Rightarrow> bool \<Rightarrow> key_t option \<Rightarrow> bool \<Rightarrow> key_t \<Rightarrow> bool" where
  "in_bounds lo li hi hi_i k \<longleftrightarrow> lower_ok lo li k \<and> upper_ok hi hi_i k"

text \<open>
  The invariant of a stored tree of height \<open>h\<close>. A subtree has a key interval
  \<open>lo \<le> k < hi\<close> (an absent bound is open): a leaf holds its entries in strictly
  increasing key order within its interval; an internal node with the children
  \<open>c\<^sub>0 \<dots> c\<^sub>n\<close> and the separator keys \<open>s\<^sub>1 \<dots> s\<^sub>n\<close> gives child \<open>c\<^sub>i\<close> the interval from
  \<open>s\<^sub>i\<close> to \<open>s\<^sub>i\<^sub>+\<^sub>1\<close>. \<open>leaves\<close> lists the leaf pages of a subtree from left to right,
  \<open>entries_of\<close> their entries, and \<open>chain_ok\<close> says that every leaf of a list links to
  the next one through \<open>next_leaf\<close>, the last to \<open>INVALID_PAGE_ID\<close>.
\<close>

definition within :: "key_t option \<Rightarrow> key_t option \<Rightarrow> key_t \<Rightarrow> bool" where
  "within lo hi k \<longleftrightarrow>
     (case lo of None \<Rightarrow> True | Some l \<Rightarrow> l \<le> k) \<and> (case hi of None \<Rightarrow> True | Some u \<Rightarrow> k < u)"

definition bound_le :: "key_t option \<Rightarrow> key_t option \<Rightarrow> bool" where
  "bound_le lo hi \<longleftrightarrow> (case lo of None \<Rightarrow> True | Some l \<Rightarrow> (case hi of None \<Rightarrow> True | Some u \<Rightarrow> l \<le> u))"

fun wf_children ::
  "(page_id_t \<Rightarrow> key_t option \<Rightarrow> key_t option \<Rightarrow> bool) \<Rightarrow> key_t option \<Rightarrow> page_id_t list \<Rightarrow> key_t list
     \<Rightarrow> key_t option \<Rightarrow> bool" where
  "wf_children P lo [] ss hi = False"
| "wf_children P lo [c] ss hi = (ss = [] \<and> P c lo hi \<and> bound_le lo hi)"
| "wf_children P lo (c # c' # cs) [] hi = False"
| "wf_children P lo (c # c' # cs) (s # ss) hi =
     (P c lo (Some s) \<and> bound_le lo (Some s) \<and> wf_children P (Some s) (c' # cs) ss hi)"

primrec wf_tree ::
  "nat \<Rightarrow> (page_id_t \<Rightarrow> BPlusTreeNode option) \<Rightarrow> page_id_t \<Rightarrow> key_t option \<Rightarrow> key_t option \<Rightarrow> bool" where
  "wf_tree 0 pages pid lo hi =
     (case pages pid of
        None \<Rightarrow> False
      | Some n \<Rightarrow> node_type n = LEAF \<and> sorted_wrt (<) (map fst (leaf_entries n))
                  \<and> list_all (within lo hi) (map fst (leaf_entries n)))"
| "wf_tree (Suc h) pages pid lo hi =
     (case pages pid of
        None \<Rightarrow> False
      | Some n \<Rightarrow> node_type n = INTERNAL
                  \<and> wf_children (wf_tree h pages) lo (children n) (map fst (internal_entries n)) hi)"

primrec leaves :: "nat \<Rightarrow> (page_id_t \<Rightarrow> BPlusTreeNode option) \<Rightarrow> page_id_t \<Rightarrow> page_id_t list" where
  "leaves 0 pages pid = [pid]"
| "leaves (Suc h) pages pid =
     (case pages pid of None \<Rightarrow> [] | Some n \<Rightarrow> concat (map (leaves h pages) (children n)))"

definition entries_of :: "(page_id_t \<Rightarrow> BPlusTreeNode option) \<Rightarrow> page_id_t list \<Rightarrow> LeafEntry list" where
  "entries_of pages ls = concat (map (\<lambda>l. case pages l of None \<Rightarrow> [] | Some n \<Rightarrow> leaf_entries n) ls)"

fun chain_ok :: "(page_id_t \<Rightarrow> BPlusTreeNode option) \<Rightarrow> page_id_t list \<Rightarrow> bool" where
  "chain_ok pages [] = True"
| "chain_ok pages (l # ls) =
     (case pages l of
        None \<Rightarrow> False
      | Some n \<Rightarrow> l \<noteq> INVALID_PAGE_ID
                  \<and> next_leaf n = (case ls of [] \<Rightarrow> INVALID_PAGE_ID | l' # ls' \<Rightarrow> l')
                  \<and> chain_ok pages ls)"

section \<open>The catalog (\<open>catalog/catalog_manager.cpp\<close>)\<close>

record TableCatalogEntry =
  t_table_id :: nat
  t_name :: string
  t_root_page_id :: page_id_t
  t_schema_version :: nat
  t_next_column_id :: nat
  t_create_sql :: string

record IndexCatalogEntry =
  index_id :: nat
  i_table_id :: nat
  i_name :: string
  i_root_page_id :: page_id_t
  is_unique :: bool
  is_primary :: bool
  column_ids :: "nat list"
  i_create_sql :: string

record TableDef =
  td_id :: nat
  td_name :: string
  td_columns :: "ColumnDef list"
  td_schema_version :: nat
  td_next_column_id :: nat

text \<open>
  The three catalog pages hold the serialized entries in slot order; the model keeps the
  entries themselves (\<open>catalog/schema.cpp\<close>, which serializes them, is not part of the
  sources at hand). Whether \<open>Page::insert\<close> finds room for one more entry on a page that
  holds given entries depends on sizes the sources at hand do not give: it is a parameter,
  as is \<open>MAX_COLUMNS_PER_TABLE\<close>.
\<close>

record catalog_env =
  MAX_COLUMNS_PER_TABLE :: nat
  tables_page_fits :: "TableCatalogEntry list \<Rightarrow> TableCatalogEntry \<Rightarrow> bool"
  columns_page_fits :: "ColumnCatalogEntry list \<Rightarrow> ColumnCatalogEntry \<Rightarrow> bool"
  indexes_page_fits :: "IndexCatalogEntry list \<Rightarrow> IndexCatalogEntry \<Rightarrow> bool"

text \<open>
  The catalog manager with its two caches, and the two id counters it keeps in the metadata
  page of the page manager. The 32-bit counters are natural numbers below \<open>2^32\<close>, with
  the wrap-around of every addition written out.
\<close>

record CatalogManager =
  tables_page :: "TableCatalogEntry list"
  columns_page :: "ColumnCatalogEntry list"
  indexes_page :: "IndexCatalogEntry list"
  tables_loaded :: bool
  tables_cache :: "TableCatalogEntry list"
  indexes_loaded :: bool
  indexes_cache :: "IndexCatalogEntry list"
  next_table_id :: nat
  next_index_id :: nat

definition u32 :: "nat \<Rightarrow> nat" where
  "u32 n = n mod 2 ^ 32"

definition UINT32_MAX :: nat where
  "UINT32_MAX = 2 ^ 32 - 1"

definition column_entry_less :: "ColumnCatalogEntry \<Rightarrow> ColumnCatalogEntry \<Rightarrow> bool" where
  "column_entry_less a b =
     (if table_id a = table_id b then
        (if is_dropped a \<noteq> is_dropped b then \<not> is_dropped a \<and> is_dropped b
         else if ordinal_position a = ordinal_position b then column_id a < column_id b
         else ordinal_position a < ordinal_position b)
      else table_id a < table_id b)"

definition index_entry_less :: "IndexCatalogEntry \<Rightarrow> IndexCatalogEntry \<Rightarrow> bool" where
  "index_entry_less a b =
     (if i_table_id a = i_table_id b then i_name a < i_name b else i_table_id a < i_table_id b)"

text \<open>
  \<open>std::sort\<close> is modelled by the stable sort above: the two differ only in the order of
  entries that the comparator does not tell apart.
\<close>

definition load_tables_cache :: "CatalogManager \<Rightarrow> CatalogManager" where
  "load_tables_cache c =
     (if tables_loaded c then c else c\<lparr>tables_cache := tables_page c, tables_loaded := True\<rparr>)"

definition load_indexes_cache :: "CatalogManager \<Rightarrow> CatalogManager" where
  "load_indexes_cache c =
     (if indexes_loaded c then c
      else c\<lparr>indexes_cache := stable_sort index_entry_less (indexes_page c), indexes_loaded := True\<rparr>)"

definition read_all_columns :: "CatalogManager \<Rightarrow> ColumnCatalogEntry list" where
  "read_all_columns c = stable_sort column_entry_less (columns_page c)"

definition read_all_columns_of :: "CatalogManager \<Rightarrow> nat \<Rightarrow> ColumnCatalogEntry list" where
  "read_all_columns_of c tid =
     stable_sort column_entry_less (filter (\<lambda>entry. table_id entry = tid) (columns_page c))"

definition read_all_indexes :: "CatalogManager \<Rightarrow> IndexCatalogEntry list" where
  "read_all_indexes c = stable_sort index_entry_less (indexes_page c)"

definition get_columns :: "CatalogManager \<Rightarrow> nat \<Rightarrow> ColumnCatalogEntry list" where
  "get_columns c tid = filter (\<lambda>entry. \<not> is_dropped entry) (read_all_columns_of c tid)"

definition get_table :: "CatalogManager \<Rightarrow> string \<Rightarrow> TableCatalogEntry option \<times> CatalogManager" where
  "get_table c nm =
     (let c1 = load_tables_cache c in (find (\<lambda>entry. t_name entry = nm) (tables_cache c1), c1))"

definition get_table_by_id :: "CatalogManager \<Rightarrow> nat \<Rightarrow> TableCatalogEntry option \<times> CatalogManager" where
  "get_table_by_id c tid =
     (let c1 = load_tables_cache c in (find (\<lambda>entry. t_table_id entry = tid) (tables_cache c1), c1))"

definition get_index :: "CatalogManager \<Rightarrow> string \<Rightarrow> IndexCatalogEntry option \<times> CatalogManager" where
  "get_index c nm =
     (let c1 = load_indexes_cache c in (find (\<lambda>entry. i_name entry = nm) (indexes_cache c1), c1))"

definition get_indexes :: "CatalogManager \<Rightarrow> nat \<Rightarrow> IndexCatalogEntry list \<times> CatalogManager" where
  "get_indexes c tid =
     (let c1 = load_indexes_cache c in (filter (\<lambda>entry. i_table_id entry = tid) (indexes_cache c1), c1))"

text \<open>
  \<open>rewrite_*_page\<close>: the page is initialised and the entries are inserted one by one; when
  one does not fit, \<open>PAGE_FULL\<close> is thrown and the page keeps the entries written so far.
  \<open>persist_*_entry\<close> appends one entry to the page as it is.
\<close>

fun rewrite_page :: "('e list \<Rightarrow> 'e \<Rightarrow> bool) \<Rightarrow> 'e list \<Rightarrow> 'e list \<Rightarrow> (StatusCode + unit) \<times> 'e list" where
  "rewrite_page fits pg [] = (Inr (), pg)"
| "rewrite_page fits pg (entry # entries) =
     (if fits pg entry then rewrite_page fits (pg @ [entry]) entries else (Inl PAGE_FULL, pg))"

definition rewrite_tables_page ::
  "catalog_env \<Rightarrow> CatalogManager \<Rightarrow> TableCatalogEntry list \<Rightarrow> (StatusCode + unit) \<times> CatalogManager" where
  "rewrite_tables_page env c entries =
     (case rewrite_page (tables_page_fits env) [] entries of (r, pg) \<Rightarrow> (r, c\<lparr>tables_page := pg\<rparr>))"

definition rewrite_columns_page ::
  "catalog_env \<Rightarrow> CatalogManager \<Rightarrow> ColumnCatalogEntry list \<Rightarrow> (StatusCode + unit) \<times> CatalogManager" where
  "rewrite_columns_page env c entries =
     (case rewrite_page (columns_page_fits env) [] entries of (r, pg) \<Rightarrow> (r, c\<lparr>columns_page := pg\<rparr>))"

definition rewrite_indexes_page ::
  "catalog_env \<Rightarrow> CatalogManager \<Rightarrow> IndexCatalogEntry list \<Rightarrow> (StatusCode + unit) \<times> CatalogManager" where
  "rewrite_indexes_page env c entries =
     (case rewrite_page (indexes_page_fits env) [] entries of (r, pg) \<Rightarrow> (r, c\<lparr>indexes_page := pg\<rparr>))"

definition persist_table_entry ::
  "catalog_env \<Rightarrow> CatalogManager \<Rightarrow> TableCatalogEntry \<Rightarrow> (StatusCode + unit) \<times> CatalogManager" where
  "persist_table_entry env c entry =
     (if tables_page_fits env (tables_page c) entry
      then (Inr (), c\<lparr>tables_page := tables_page c @ [entry]\<rparr>) else (Inl PAGE_FULL, c))"

definition persist_column_entry ::
  "catalog_env \<Rightarrow> CatalogManager \<Rightarrow> ColumnCatalogEntry \<Rightarrow> (StatusCode + unit) \<times> CatalogManager" where
  "persist_column_entry env c entry =
     (if columns_page_fits env (columns_page c) entry
      then (Inr (), c\<lparr>columns_page := columns_page c @ [entry]\<rparr>) else (Inl PAGE_FULL, c))"

definition persist_index_entry ::
  "catalog_env \<Rightarrow> CatalogManager \<Rightarrow> IndexCatalogEntry \<Rightarrow> (StatusCode + unit) \<times> CatalogManager" where
  "persist_index_entry env c entry =
     (if indexes_page_fits env (indexes_page c) entry
      then (Inr (), c\<lparr>indexes_page := indexes_page c @ [entry]\<rparr>) else (Inl PAGE_FULL, c))"

text \<open>The position of the first entry that satisfies \<open>P\<close> (\<open>std::find_if\<close>).\<close>

fun find_index :: "('a \<Rightarrow> bool) \<Rightarrow> 'a list \<Rightarrow> nat option" where
  "find_index P [] = None"
| "find_index P (x # xs) = (if P x then Some 0 else map_option Suc (find_index P xs))"

text \<open>
  The two tests of the loops over the column entries: an active entry of the table, and an
  active entry of the table with a given name.
\<close>

definition is_active_of :: "nat \<Rightarrow> ColumnCatalogEntry \<Rightarrow> bool" where
  "is_active_of tid entry \<longleftrightarrow> table_id entry = tid \<and> \<not> is_dropped entry"

definition is_named :: "nat \<Rightarrow> string \<Rightarrow> ColumnCatalogEntry \<Rightarrow> bool" where
  "is_named tid nm entry \<longleftrightarrow>
     table_id entry = tid \<and> \<not> is_dropped entry \<and> col_name (column entry) = nm"

text \<open>
  The body of the loop of \<open>add_column\<close> over the entries of the table: active entries at
  or after the insert position move up by one, and every entry of the table takes the new
  schema version.
\<close>

definition shift_entry :: "nat \<Rightarrow> nat \<Rightarrow> nat \<Rightarrow> ColumnCatalogEntry \<Rightarrow> ColumnCatalogEntry" where
  "shift_entry tid insert_pos new_schema_version entry =
     (if table_id entry = tid then
        (if \<not> is_dropped entry \<and> ordinal_position entry \<ge> insert_pos
         then entry\<lparr>ordinal_position := u32 (ordinal_position entry + 1)\<rparr>
         else entry)\<lparr>schema_version := new_schema_version\<rparr>
      else entry)"

subsection \<open>\<open>add_column\<close>\<close>

definition add_column ::
  "catalog_env \<Rightarrow> CatalogManager \<Rightarrow> nat \<Rightarrow> ColumnDef \<Rightarrow> nat option
     \<Rightarrow> (StatusCode + ColumnCatalogEntry) \<times> CatalogManager" where
  "add_column env c tid col position =
     (let c1 = load_tables_cache c in
      case find_index (\<lambda>entry. t_table_id entry = tid) (tables_cache c1) of
        None \<Rightarrow> (Inl TABLE_NOT_FOUND, c1)
      | Some ti \<Rightarrow>
          let tbl = tables_cache c1 ! ti in
          if primary_key (col_constraint col) then (Inl INVALID_CONSTRAINT, c1)
          else
            let all_columns = read_all_columns c1 in
            if filter (is_named tid (col_name col)) all_columns \<noteq> []
            then (Inl DUPLICATE_COLUMN, c1)
            else
                 let active_count = u32 (length (filter (is_active_of tid) all_columns)) in
                 if active_count \<ge> MAX_COLUMNS_PER_TABLE env then (Inl INVALID_CONSTRAINT, c1)
                 else
                   let insert_pos = (case position of Some p \<Rightarrow> p | None \<Rightarrow> active_count) in
                   if insert_pos > active_count then (Inl INVALID_CONSTRAINT, c1)
                   else
                     let new_schema_version = u32 (t_schema_version tbl + 1);
                         new_entry = \<lparr>table_id = tid, column_id = t_next_column_id tbl,
                                      ordinal_position = insert_pos,
                                      schema_version = new_schema_version, is_dropped = False,
                                      column = col\<lparr>col_id := t_next_column_id tbl\<rparr>\<rparr>;
                         shifted = map (shift_entry tid insert_pos new_schema_version) all_columns;
                         sorted_columns = stable_sort column_entry_less (shifted @ [new_entry])
                     in case rewrite_columns_page env c1 sorted_columns of
                          (Inl e, c2) \<Rightarrow> (Inl e, c2)
                        | (Inr u, c2) \<Rightarrow>
                            let c3 = c2\<lparr>tables_cache := (tables_cache c2)[ti :=
                                        tbl\<lparr>t_schema_version := new_schema_version,
                                             t_next_column_id := u32 (column_id new_entry + 1)\<rparr>]\<rparr>
                            in (case rewrite_tables_page env c3 (tables_cache c3) of
                                  (Inl e, c4) \<Rightarrow> (Inl e, c4)
                                | (Inr u, c4) \<Rightarrow> (Inr new_entry, c4)))"

subsection \<open>\<open>drop_column\<close>\<close>

definition set_version :: "nat \<Rightarrow> nat \<Rightarrow> ColumnCatalogEntry \<Rightarrow> ColumnCatalogEntry" where
  "set_version tid new_schema_version entry =
     (if table_id entry = tid then entry\<lparr>schema_version := new_schema_version\<rparr> else entry)"

text \<open>The first loop: the target is the last active entry of the table with the name.\<close>

fun find_target :: "nat \<Rightarrow> string \<Rightarrow> ColumnCatalogEntry list \<Rightarrow> nat \<Rightarrow> nat option \<Rightarrow> nat option" where
  "find_target tid nm [] i target = target"
| "find_target tid nm (entry # entries) i target =
     find_target tid nm entries (Suc i) (if is_named tid nm entry then Some i else target)"

text \<open>
  The last loop: the active entries of the table other than the target are numbered from
  \<open>ordinal\<close> on, in the order of the list.
\<close>

fun renumber :: "nat \<Rightarrow> nat \<Rightarrow> nat \<Rightarrow> nat \<Rightarrow> ColumnCatalogEntry list \<Rightarrow> ColumnCatalogEntry list" where
  "renumber tid target i ordinal [] = []"
| "renumber tid target i ordinal (entry # entries) =
     (if \<not> is_active_of tid entry \<or> i = target
      then entry # renumber tid target (Suc i) ordinal entries
      else entry\<lparr>ordinal_position := ordinal\<rparr>
             # renumber tid target (Suc i) (u32 (ordinal + 1)) entries)"

definition drop_column ::
  "catalog_env \<Rightarrow> CatalogManager \<Rightarrow> nat \<Rightarrow> string
     \<Rightarrow> (StatusCode + ColumnCatalogEntry) \<times> CatalogManager" where
  "drop_column env c tid column_name =
     (let c1 = load_tables_cache c in
      case find_index (\<lambda>entry. t_table_id entry = tid) (tables_cache c1) of
        None \<Rightarrow> (Inl TABLE_NOT_FOUND, c1)
      | Some ti \<Rightarrow>
          let tbl = tables_cache c1 ! ti;
              all_columns = read_all_columns c1
          in case find_target tid column_name all_columns 0 None of
               None \<Rightarrow> (Inl COLUMN_NOT_FOUND, c1)
             | Some target_index \<Rightarrow>
                 let target = all_columns ! target_index in
                 if primary_key (col_constraint (column target)) then (Inl INVALID_CONSTRAINT, c1)
                 else
                   let remaining = length (filter (\<lambda>(i, entry). i \<noteq> target_index \<and> is_active_of tid entry)
                                             (zip [0..<length all_columns] all_columns))
                   in if remaining = 0 then (Inl INVALID_CONSTRAINT, c1)
                      else
                        let new_schema_version = u32 (t_schema_version tbl + 1);
                            dropped_copy = target\<lparr>is_dropped := True,
                                                  schema_version := new_schema_version,
                                                  ordinal_position := UINT32_MAX\<rparr>;
                            marked = all_columns[target_index := dropped_copy];
                            versioned = map (set_version tid new_schema_version) marked;
                            renumbered = renumber tid target_index 0 0 versioned;
                            sorted_columns = stable_sort column_entry_less renumbered
                        in case rewrite_columns_page env c1 sorted_columns of
                             (Inl e, c2) \<Rightarrow> (Inl e, c2)
                           | (Inr u, c2) \<Rightarrow>
                               let c3 = c2\<lparr>tables_cache := (tables_cache c2)[ti :=
                                           tbl\<lparr>t_schema_version := new_schema_version\<rparr>]\<rparr>
                               in (case rewrite_tables_page env c3 (tables_cache c3) of
                                     (Inl e, c4) \<Rightarrow> (Inl e, c4)
                                   | (Inr u, c4) \<Rightarrow> (Inr dropped_copy, c4)))"

text \<open>What a user sees of an active column: name, type and ordinal position.\<close>

definition visible :: "ColumnCatalogEntry \<Rightarrow> string \<times> DataType \<times> nat" where
  "visible entry = (col_name (column entry), col_type (column entry), ordinal_position entry)"

definition name_and_type :: "ColumnCatalogEntry \<Rightarrow> string \<times> DataType" where
  "name_and_type entry = (col_name (column entry), col_type (column entry))"

definition table_schema_version :: "CatalogManager \<Rightarrow> nat \<Rightarrow> nat option" where
  "table_schema_version c tid = map_option t_schema_version (fst (get_table_by_id c tid))"

text \<open>
  \<open>column_entry_less\<close> is the lexicographic order on (table, dropped, ordinal, column id),
  active entries before dropped ones.
\<close>

definition column_sort_key :: "ColumnCatalogEntry \<Rightarrow> nat \<times> bool \<times> nat \<times> nat" where
  "column_sort_key entry =
     (table_id entry, is_dropped entry, ordinal_position entry, column_id entry)"

fun renum_list :: "nat \<Rightarrow> ColumnCatalogEntry list \<Rightarrow> ColumnCatalogEntry list" where
  "renum_list ordinal [] = []"
| "renum_list ordinal (entry # entries) =
     entry\<lparr>ordinal_position := ordinal\<rparr> # renum_list (u32 (ordinal + 1)) entries"


text \<open>
  A catalog for concrete runs: one table \<open>t (id INTEGER PRIMARY KEY, name VARCHAR(8))\<close>
  with table id 1, every catalog page with room for what the runs write, and a column
  \<open>nick VARCHAR(16)\<close> to add.
\<close>

definition sample_env :: catalog_env where
  "sample_env = \<lparr>MAX_COLUMNS_PER_TABLE = 64,
                  tables_page_fits = (\<lambda>pg e. length pg < 16),
                  columns_page_fits = (\<lambda>pg e. length pg < 16),
                  indexes_page_fits = (\<lambda>pg e. length pg < 16)\<rparr>"

definition sample_table :: TableCatalogEntry where
  "sample_table = \<lparr>t_table_id = 1, t_name = ''t'', t_root_page_id = 5, t_schema_version = 1,
                    t_next_column_id = 3, t_create_sql = ''CREATE TABLE t''\<rparr>"

definition sample_catalog :: CatalogManager where
  "sample_catalog = \<lparr>tables_page = [sample_table], columns_page = sample_columns,
                      indexes_page = [], tables_loaded = False, tables_cache = [],
                      indexes_loaded = False, indexes_cache = [],
                      next_table_id = 2, next_index_id = 1\<rparr>"

definition nick_column :: ColumnDef where
  "nick_column = \<lparr>col_id = 0, col_name = ''nick'', col_type = VARCHAR, col_length = 16,
                   col_constraint = \<lparr>not_null = False, primary_key = False, unique_c = False,
                                      default_literal = None\<rparr>\<rparr>"

section \<open>The main file: data pages, page manager, table heap\<close>

text \<open>
  Modelled from the spec: the slotted page of \<open>storage/page.h\<close> and the page manager of
  \<open>storage/page_manager.cpp\<close>, neither of which is part of the sources at hand. A data
  page keeps its type, its two chain links and its slots, each slot a payload and a
  tombstone flag. Records grow down from the page end and slots up from the header; an
  insert of \<open>N\<close> bytes succeeds iff \<open>free_space_offset + sizeof(SlotEntry) \<le> payload_tail - N\<close>.
  A page of type INVALID becomes a DATA page on its first insert.
\<close>

record DataPage =
  dp_type :: PageType
  dp_next :: page_id_t
  dp_prev :: page_id_t
  dp_slots :: "(8 word list \<times> bool) list"

definition empty_page :: "PageType \<Rightarrow> DataPage" where
  "empty_page ty = \<lparr>dp_type = ty, dp_next = INVALID_PAGE_ID, dp_prev = INVALID_PAGE_ID, dp_slots = []\<rparr>"

definition Page_insert :: "config \<Rightarrow> DataPage \<Rightarrow> 8 word list \<Rightarrow> (DataPage \<times> nat) option" where
  "Page_insert cfg pg data =
     (let free_space_offset = kPageHeaderSize cfg + kSlotEntrySize cfg * length (dp_slots pg);
          payload_tail = kPageSize cfg - sum_list (map (\<lambda>s. length (fst s)) (dp_slots pg))
      in if length data \<le> payload_tail
            \<and> free_space_offset + kSlotEntrySize cfg \<le> payload_tail - length data
         then Some (pg\<lparr>dp_type := (if dp_type pg = INVALID then DATA else dp_type pg),
                       dp_slots := dp_slots pg @ [(data, False)]\<rparr>,
                    length (dp_slots pg))
         else None)"

definition Page_read :: "DataPage \<Rightarrow> nat \<Rightarrow> 8 word list option" where
  "Page_read pg slot =
     (if slot < length (dp_slots pg) \<and> \<not> snd (dp_slots pg ! slot)
      then Some (fst (dp_slots pg ! slot)) else None)"

text \<open>
  The page manager of the main file: the pages that exist, the free list and the id of the
  next page to append. \<open>new_page\<close> pops the free list or appends; \<open>free_page\<close> pushes
  the id and sets the page type to INVALID, leaving the body.
\<close>

record PageManager =
  pm_pages :: "page_id_t \<Rightarrow> DataPage option"
  pm_free_list :: "page_id_t list"
  pm_next_page :: page_id_t

definition FIRST_PAGE_ID :: page_id_t where
  "FIRST_PAGE_ID = 1"

definition is_valid_page :: "page_id_t \<Rightarrow> bool" where
  "is_valid_page pid \<longleftrightarrow> pid \<ge> FIRST_PAGE_ID"

definition pm_fetch :: "PageManager \<Rightarrow> page_id_t \<Rightarrow> StatusCode + DataPage" where
  "pm_fetch pm pid = (case pm_pages pm pid of None \<Rightarrow> Inl IO_ERROR | Some pg \<Rightarrow> Inr pg)"

definition pm_new_page :: "PageManager \<Rightarrow> PageType \<Rightarrow> page_id_t \<times> PageManager" where
  "pm_new_page pm ty =
     (case pm_free_list pm of
        pid # rest \<Rightarrow> (pid, pm\<lparr>pm_free_list := rest, pm_pages := (pm_pages pm)(pid \<mapsto> empty_page ty)\<rparr>)
      | [] \<Rightarrow> (pm_next_page pm,
               pm\<lparr>pm_next_page := Suc (pm_next_page pm),
                   pm_pages := (pm_pages pm)(pm_next_page pm \<mapsto> empty_page ty)\<rparr>))"

definition pm_free_page :: "PageManager \<Rightarrow> page_id_t \<Rightarrow> PageManager" where
  "pm_free_page pm pid =
     pm\<lparr>pm_free_list := pid # pm_free_list pm,
        pm_pages := (\<lambda>p. if p = pid then map_option (\<lambda>pg. pg\<lparr>dp_type := INVALID\<rparr>) (pm_pages pm p)
                           else pm_pages pm p)\<rparr>"

subsection \<open>\<open>TableHeap\<close> (\<open>storage/table_heap.cpp\<close>)\<close>

record TableHeap =
  heap_root :: page_id_t
  heap_tail :: page_id_t

fun find_tail :: "nat \<Rightarrow> PageManager \<Rightarrow> page_id_t \<Rightarrow> page_id_t \<Rightarrow> (StatusCode + page_id_t) option" where
  "find_tail 0 pm start current = None"
| "find_tail (Suc fuel) pm start current =
     (if is_valid_page current then
        (case pm_fetch pm current of
           Inl e \<Rightarrow> Some (Inl e)
         | Inr pg \<Rightarrow>
             if \<not> is_valid_page (dp_next pg) then Some (Inr current)
             else find_tail fuel pm start (dp_next pg))
      else Some (Inr start))"

definition TableHeap_new :: "nat \<Rightarrow> PageManager \<Rightarrow> page_id_t \<Rightarrow> (StatusCode + TableHeap) option" where
  "TableHeap_new fuel pm root =
     (if \<not> is_valid_page root then Some (Inl INVALID_ARGUMENT)
      else case pm_fetch pm root of
             Inl e \<Rightarrow> Some (Inl e)
           | Inr pg \<Rightarrow>
               if dp_type pg \<noteq> DATA then Some (Inl INVALID_PAGE_TYPE)
               else (case find_tail fuel pm root root of
                       None \<Rightarrow> None
                     | Some (Inl e) \<Rightarrow> Some (Inl e)
                     | Some (Inr tail) \<Rightarrow> Some (Inr \<lparr>heap_root = root, heap_tail = tail\<rparr>)))"

text \<open>A row location is (page id, slot).\<close>

definition append_new_page ::
  "config \<Rightarrow> PageManager \<Rightarrow> TableHeap \<Rightarrow> page_id_t \<Rightarrow> 8 word list
     \<Rightarrow> (StatusCode + (page_id_t \<times> nat)) \<times> PageManager \<times> TableHeap" where
  "append_new_page cfg pm heap previous_tail data =
     (let (new_page_id, pm1) = pm_new_page pm DATA;
          new_pg = (empty_page DATA)\<lparr>dp_prev := previous_tail, dp_next := INVALID_PAGE_ID\<rparr>
      in case Page_insert cfg new_pg data of
           None \<Rightarrow> (Inl PAGE_FULL,
                     pm_free_page (pm1\<lparr>pm_pages := (pm_pages pm1)(new_page_id \<mapsto> new_pg)\<rparr>) new_page_id,
                     heap)
         | Some (new_pg', slot) \<Rightarrow>
             let pm2 = pm1\<lparr>pm_pages := (pm_pages pm1)(new_page_id \<mapsto> new_pg')\<rparr> in
             (case pm_fetch pm2 previous_tail of
                Inl e \<Rightarrow> (Inl e, pm2, heap)
              | Inr prev_pg \<Rightarrow>
                  (Inr (new_page_id, slot),
                   pm2\<lparr>pm_pages := (pm_pages pm2)(previous_tail \<mapsto> prev_pg\<lparr>dp_next := new_page_id\<rparr>)\<rparr>,
                   heap\<lparr>heap_tail := new_page_id\<rparr>)))"

fun heap_insert_loop ::
  "nat \<Rightarrow> config \<Rightarrow> PageManager \<Rightarrow> TableHeap \<Rightarrow> page_id_t \<Rightarrow> 8 word list
     \<Rightarrow> ((StatusCode + (page_id_t \<times> nat)) \<times> PageManager \<times> TableHeap) option" where
  "heap_insert_loop 0 cfg pm heap current data = None"
| "heap_insert_loop (Suc fuel) cfg pm heap current data =
     (if is_valid_page current then
        (case pm_fetch pm current of
           Inl e \<Rightarrow> Some (Inl e, pm, heap)
         | Inr pg \<Rightarrow>
             (case Page_insert cfg pg data of
                Some (pg', slot) \<Rightarrow>
                  Some (Inr (current, slot),
                        pm\<lparr>pm_pages := (pm_pages pm)(current \<mapsto> pg')\<rparr>,
                        heap\<lparr>heap_tail := current\<rparr>)
              | None \<Rightarrow>
                  if is_valid_page (dp_next pg)
                  then heap_insert_loop fuel cfg pm heap (dp_next pg) data
                  else Some (append_new_page cfg pm heap current data)))
      else Some (append_new_page cfg pm heap (heap_root heap) data))"

definition heap_insert ::
  "nat \<Rightarrow> config \<Rightarrow> PageManager \<Rightarrow> TableHeap \<Rightarrow> 8 word list
     \<Rightarrow> ((StatusCode + (page_id_t \<times> nat)) \<times> PageManager \<times> TableHeap) option" where
  "heap_insert fuel cfg pm heap data =
     (if length data > 65535 then Some (Inl RECORD_TOO_LARGE, pm, heap)
      else heap_insert_loop fuel cfg pm heap (heap_tail heap) data)"

definition heap_read :: "PageManager \<Rightarrow> page_id_t \<times> nat \<Rightarrow> StatusCode + 8 word list option" where
  "heap_read pm loc =
     (if \<not> is_valid_page (fst loc) then Inr None
      else case pm_fetch pm (fst loc) of
             Inl e \<Rightarrow> Inl e
           | Inr pg \<Rightarrow> Inr (Page_read pg (snd loc)))"

text \<open>\<open>scan\<close>: the live rows of the chain in page and slot order, through the iterator.\<close>

fun heap_scan :: "nat \<Rightarrow> PageManager \<Rightarrow> page_id_t \<Rightarrow> (StatusCode + 8 word list list) option" where
  "heap_scan 0 pm current = None"
| "heap_scan (Suc fuel) pm current =
     (if is_valid_page current then
        (case pm_fetch pm current of
           Inl e \<Rightarrow> Some (Inl e)
         | Inr pg \<Rightarrow>
             (case heap_scan fuel pm (dp_next pg) of
                None \<Rightarrow> None
              | Some (Inl e) \<Rightarrow> Some (Inl e)
              | Some (Inr rows) \<Rightarrow>
                  Some (Inr (map fst (filter (\<lambda>s. \<not> snd s) (dp_slots pg)) @ rows))))
      else Some (Inr []))"

text \<open>
  \<open>truncate\<close>: the root page is reset in place, then every page of the chain after the root
  is freed.
\<close>

fun free_chain_loop :: "nat \<Rightarrow> PageManager \<Rightarrow> page_id_t \<Rightarrow> ((StatusCode + unit) \<times> PageManager) option" where
  "free_chain_loop 0 pm current = None"
| "free_chain_loop (Suc fuel) pm current =
     (if is_valid_page current then
        (case pm_fetch pm current of
           Inl e \<Rightarrow> Some (Inl e, pm)
         | Inr pg \<Rightarrow> free_chain_loop fuel (pm_free_page pm current) (dp_next pg))
      else Some (Inr (), pm))"

definition heap_truncate ::
  "nat \<Rightarrow> PageManager \<Rightarrow> TableHeap \<Rightarrow> ((StatusCode + unit) \<times> PageManager \<times> TableHeap) option" where
  "heap_truncate fuel pm heap =
     (case pm_fetch pm (heap_root heap) of
        Inl e \<Rightarrow> Some (Inl e, pm, heap)
      | Inr root \<Rightarrow>
          let next = dp_next root;
              root' = root\<lparr>dp_next := INVALID_PAGE_ID, dp_prev := INVALID_PAGE_ID, dp_slots := []\<rparr>;
              pm1 = pm\<lparr>pm_pages := (pm_pages pm)(heap_root heap \<mapsto> root')\<rparr>
          in (case free_chain_loop fuel pm1 next of
                None \<Rightarrow> None
              | Some (Inl e, pm2) \<Rightarrow> Some (Inl e, pm2, heap)
              | Some (Inr u, pm2) \<Rightarrow> Some (Inr (), pm2, heap\<lparr>heap_tail := heap_root heap\<rparr>)))"

section \<open>Creating and dropping catalog objects\<close>

text \<open>
  \<open>create_table\<close>, \<open>create_index\<close>, \<open>set_index_root\<close> and \<open>drop_table\<close> of the catalog
  manager. The three catalog pages exist (\<open>ensure_catalog_pages\<close> has run in the
  constructor). \<open>TableCatalogEntry::from_table_def\<close> copies id, name, schema version and
  next column id of the definition and takes root page and statement text as given.
\<close>

fun persist_columns ::
  "catalog_env \<Rightarrow> CatalogManager \<Rightarrow> nat \<Rightarrow> nat \<Rightarrow> nat \<Rightarrow> ColumnDef list
     \<Rightarrow> (StatusCode + unit) \<times> CatalogManager" where
  "persist_columns env c new_id version i [] = (Inr (), c)"
| "persist_columns env c new_id version i (col # cols) =
     (let col_entry = \<lparr>table_id = new_id, column_id = u32 (i + 1), ordinal_position = u32 i,
                       schema_version = version, is_dropped = False,
                       column = col\<lparr>col_id := u32 (i + 1)\<rparr>\<rparr>
      in case persist_column_entry env c col_entry of
           (Inl e, c1) \<Rightarrow> (Inl e, c1)
         | (Inr u, c1) \<Rightarrow> persist_columns env c1 new_id version (Suc i) cols)"

definition create_table ::
  "catalog_env \<Rightarrow> CatalogManager \<Rightarrow> TableDef \<Rightarrow> page_id_t \<Rightarrow> string
     \<Rightarrow> (StatusCode + TableCatalogEntry) \<times> CatalogManager" where
  "create_table env c def root create_sql =
     (let c1 = load_tables_cache c in
      if find (\<lambda>entry. t_name entry = td_name def) (tables_cache c1) \<noteq> None
      then (Inl TABLE_EXISTS, c1)
      else
        let new_id = next_table_id c1;
            c2 = c1\<lparr>next_table_id := u32 (new_id + 1)\<rparr>;
            version = (if td_schema_version def = 0 then 1 else td_schema_version def);
            next_col = (if td_next_column_id def \<le> length (td_columns def)
                        then u32 (length (td_columns def) + 1) else td_next_column_id def);
            table_entry = \<lparr>t_table_id = new_id, t_name = td_name def, t_root_page_id = root,
                           t_schema_version = version, t_next_column_id = next_col,
                           t_create_sql = create_sql\<rparr>
        in case persist_table_entry env c2 table_entry of
             (Inl e, c3) \<Rightarrow> (Inl e, c3)
           | (Inr u, c3) \<Rightarrow>
               let c4 = (if tables_loaded c3
                         then c3\<lparr>tables_cache := tables_cache c3 @ [table_entry]\<rparr> else c3)
               in (case persist_columns env c4 new_id version 0 (td_columns def) of
                     (Inl e, c5) \<Rightarrow> (Inl e, c5)
                   | (Inr u, c5) \<Rightarrow> (Inr table_entry, c5)))"

definition create_index ::
  "catalog_env \<Rightarrow> CatalogManager \<Rightarrow> IndexCatalogEntry
     \<Rightarrow> (StatusCode + IndexCatalogEntry) \<times> CatalogManager" where
  "create_index env c entry0 =
     (let c1 = load_indexes_cache c in
      if i_name entry0 = [] then (Inl INVALID_ARGUMENT, c1)
      else if fst (get_index c1 (i_name entry0)) \<noteq> None then (Inl DUPLICATE_KEY, c1)
      else
        case get_table_by_id c1 (i_table_id entry0) of
          (None, c2) \<Rightarrow> (Inl TABLE_NOT_FOUND, c2)
        | (Some owning_table, c2) \<Rightarrow>
            if column_ids entry0 = [] then (Inl INVALID_ARGUMENT, c2)
            else
              let new_id = next_index_id c2;
                  c3 = c2\<lparr>next_index_id := u32 (new_id + 1)\<rparr>;
                  entry = entry0\<lparr>index_id := new_id\<rparr>
              in case persist_index_entry env c3 entry of
                   (Inl e, c4) \<Rightarrow> (Inl e, c4)
                 | (Inr u, c4) \<Rightarrow>
                     (Inr entry,
                      c4\<lparr>indexes_cache := stable_sort index_entry_less (indexes_cache c4 @ [entry]),
                          indexes_loaded := True\<rparr>))"

definition set_index_root ::
  "catalog_env \<Rightarrow> CatalogManager \<Rightarrow> nat \<Rightarrow> page_id_t \<Rightarrow> (StatusCode + unit) \<times> CatalogManager" where
  "set_index_root env c iid root =
     (let c1 = load_indexes_cache c in
      case find_index (\<lambda>entry. index_id entry = iid) (indexes_cache c1) of
        None \<Rightarrow> (Inl INDEX_NOT_FOUND, c1)
      | Some i \<Rightarrow>
          let c2 = c1\<lparr>indexes_cache :=
                        (indexes_cache c1)[i := (indexes_cache c1 ! i)\<lparr>i_root_page_id := root\<rparr>]\<rparr>
          in rewrite_indexes_page env c2 (indexes_cache c2))"

definition drop_table ::
  "catalog_env \<Rightarrow> CatalogManager \<Rightarrow> string \<Rightarrow> (StatusCode + bool) \<times> CatalogManager" where
  "drop_table env c nm =
     (let c1 = load_tables_cache c in
      case find_index (\<lambda>entry. t_name entry = nm) (tables_cache c1) of
        None \<Rightarrow> (Inr False, c1)
      | Some i \<Rightarrow>
          let removed = tables_cache c1 ! i;
              c2 = c1\<lparr>tables_cache := take i (tables_cache c1) @ drop (Suc i) (tables_cache c1)\<rparr>
          in case rewrite_tables_page env c2 (tables_cache c2) of
               (Inl e, c3) \<Rightarrow> (Inl e, c3)
             | (Inr u, c3) \<Rightarrow>
                 let c4 = c3\<lparr>tables_loaded := True\<rparr>;
                     filtered = filter (\<lambda>entry. table_id entry \<noteq> t_table_id removed)
                                  (read_all_columns c4)
                 in (case rewrite_columns_page env c4 filtered of
                       (Inl e, c5) \<Rightarrow> (Inl e, c5)
                     | (Inr u, c5) \<Rightarrow>
                         let index_filtered = filter (\<lambda>entry. i_table_id entry \<noteq> t_table_id removed)
                                                (read_all_indexes c5)
                         in (case rewrite_indexes_page env c5 index_filtered of
                               (Inl e, c6) \<Rightarrow> (Inl e, c6)
                             | (Inr u, c6) \<Rightarrow>
                                 (Inr True, c6\<lparr>indexes_cache := index_filtered,
                                                indexes_loaded := True\<rparr>))))"

section \<open>The database and the index manager\<close>

text \<open>
  The state the executors work on: the catalog, the page manager of the main file with the
  table heaps, one file per index (\<open>IndexManager\<close>; the file of index \<open>i\<close> holds the pages of
  its tree and has a page manager of its own), and the table files that CREATE TABLE
  leaves behind.

  What the file system answers is a parameter of a run: whether the file of an index can
  be opened, and whether the file of a table can be created. A page written through a
  handle is in the index file when the call that wrote it returns or throws.
\<close>

record IndexFile =
  if_pages :: "page_id_t \<Rightarrow> BPlusTreeNode option"
  if_next_page :: page_id_t

record Database =
  db_catalog :: CatalogManager
  db_pm :: PageManager
  db_index_files :: "nat \<Rightarrow> IndexFile option"
  db_table_files :: "nat list"

record exec_env =
  cat_env :: catalog_env
  tree_cfg :: config
  index_file_opens :: "nat \<Rightarrow> bool"
  table_file_opens :: "nat \<Rightarrow> bool"

definition file_of_tree :: "BPlusTree \<Rightarrow> IndexFile" where
  "file_of_tree t = \<lparr>if_pages = tree_pages t, if_next_page = tree_next_page t\<rparr>"

text \<open>
  \<open>MakeHandle\<close>: a missing file is an error unless it may be created; a new index file has
  its metadata page only, so that its first free page id is 2.
\<close>

definition MakeHandle ::
  "exec_env \<Rightarrow> (nat \<Rightarrow> IndexFile option) \<Rightarrow> IndexCatalogEntry \<Rightarrow> bool
     \<Rightarrow> (StatusCode + BPlusTree) \<times> (nat \<Rightarrow> IndexFile option)" where
  "MakeHandle env files entry create_if_missing =
     (if \<not> create_if_missing \<and> files (index_id entry) = None then (Inl INDEX_NOT_FOUND, files)
      else if \<not> index_file_opens env (index_id entry) then (Inl IO_ERROR, files)
      else
        let file = (case files (index_id entry) of
                      None \<Rightarrow> \<lparr>if_pages = (\<lambda>_. None), if_next_page = 2\<rparr>
                    | Some f \<Rightarrow> f)
        in case BPlusTree_new (tree_cfg env) (if_pages file) (if_next_page file)
                  (i_root_page_id entry) (is_unique entry) of
             Inl e \<Rightarrow> (Inl e, files(index_id entry \<mapsto> file))
           | Inr t \<Rightarrow> (Inr t, files(index_id entry \<mapsto> file_of_tree t)))"

definition CreateIndex ::
  "exec_env \<Rightarrow> (nat \<Rightarrow> IndexFile option) \<Rightarrow> IndexCatalogEntry
     \<Rightarrow> (StatusCode + BPlusTree) \<times> (nat \<Rightarrow> IndexFile option)" where
  "CreateIndex env files entry =
     (case MakeHandle env files entry True of
        (Inl e, files1) \<Rightarrow> (Inl e, files1)
      | (Inr t, files1) \<Rightarrow>
          if root_page_id t = INVALID_PAGE_ID then (Inl INTERNAL_ERROR, files1)
          else (Inr t, files1))"

definition OpenIndex ::
  "exec_env \<Rightarrow> (nat \<Rightarrow> IndexFile option) \<Rightarrow> IndexCatalogEntry
     \<Rightarrow> (StatusCode + BPlusTree) \<times> (nat \<Rightarrow> IndexFile option)" where
  "OpenIndex env files entry = MakeHandle env files entry False"

section \<open>The DDL executor (\<open>engine/ddl_executor.cpp\<close>)\<close>

record ColumnConstraintAST =
  ast_not_null :: bool
  ast_primary_key :: bool
  ast_unique :: bool
  ast_default_literal :: "string option"

record ColumnDefAST =
  ast_name :: string
  ast_type :: DataType
  ast_length :: nat
  ast_constraint :: ColumnConstraintAST

record CreateTableStatement =
  ct_table_name :: string
  ct_columns :: "ColumnDefAST list"

record CreateIndexStatement =
  ci_index_name :: string
  ci_unique :: bool
  ci_table_name :: string
  ci_column_names :: "string list"
  ci_if_not_exists :: bool

definition toupper :: "char \<Rightarrow> char" where
  "toupper ch = (if CHR ''a'' \<le> ch \<and> ch \<le> CHR ''z'' then char_of (of_char ch - (32::nat)) else ch)"

definition normalize_identifier :: "string \<Rightarrow> string" where
  "normalize_identifier nm = map toupper nm"

definition map_constraint :: "ColumnConstraintAST \<Rightarrow> ColumnConstraint" where
  "map_constraint con =
     \<lparr>not_null = (ast_not_null con \<or> ast_primary_key con),
      primary_key = ast_primary_key con,
      unique_c = (ast_unique con \<or> ast_primary_key con),
      default_literal = ast_default_literal con\<rparr>"

definition map_column :: "nat \<Rightarrow> ColumnDefAST \<Rightarrow> ColumnDef" where
  "map_column i column_ast =
     \<lparr>col_id = u32 (i + 1), col_name = ast_name column_ast, col_type = ast_type column_ast,
      col_length = ast_length column_ast, col_constraint = map_constraint (ast_constraint column_ast)\<rparr>"

text \<open>
  The loop of \<open>create_from_ast\<close> over the column list: the names seen so far (normalized),
  whether a primary key was seen and its name, and the columns mapped so far.
\<close>

fun map_columns ::
  "nat \<Rightarrow> ColumnDefAST list \<Rightarrow> string list \<Rightarrow> bool \<Rightarrow> string \<Rightarrow> ColumnDef list
     \<Rightarrow> StatusCode + (ColumnDef list \<times> string)" where
  "map_columns i [] seen_names primary_key_seen primary_key_name cols = Inr (cols, primary_key_name)"
| "map_columns i (col_ast # rest) seen_names primary_key_seen primary_key_name cols =
     (if ast_name col_ast = [] then Inl SYNTAX_ERROR
      else
        let normalized = normalize_identifier (ast_name col_ast) in
        if normalized \<in> set seen_names then Inl DUPLICATE_COLUMN
        else
          let col = map_column i col_ast in
          if primary_key (col_constraint col) then
            (if primary_key_seen then Inl INVALID_CONSTRAINT
             else map_columns (Suc i) rest (normalized # seen_names) True (col_name col) (cols @ [col]))
          else map_columns (Suc i) rest (normalized # seen_names) primary_key_seen primary_key_name
                 (cols @ [col]))"

text \<open>The loop of \<open>create_index_from_ast\<close> that resolves the column names.\<close>

fun resolve_columns :: "ColumnCatalogEntry list \<Rightarrow> string list \<Rightarrow> StatusCode + nat list" where
  "resolve_columns columns [] = Inr []"
| "resolve_columns columns (nm # names) =
     (case find (\<lambda>entry. normalize_identifier (col_name (column entry)) = normalize_identifier nm)
             columns of
        None \<Rightarrow> Inl COLUMN_NOT_FOUND
      | Some entry \<Rightarrow>
          (case resolve_columns columns names of
             Inl e \<Rightarrow> Inl e
           | Inr ids \<Rightarrow> Inr (column_id entry # ids)))"

definition create_index_from_ast ::
  "exec_env \<Rightarrow> Database \<Rightarrow> CreateIndexStatement \<Rightarrow> string \<Rightarrow> bool
     \<Rightarrow> (StatusCode + string) \<times> Database" where
  "create_index_from_ast env db stmt original_sql is_prim =
     (if ci_index_name stmt = [] then (Inl SYNTAX_ERROR, db)
      else
        case get_index (db_catalog db) (ci_index_name stmt) of
          (Some existing, c1) \<Rightarrow>
            if ci_if_not_exists stmt
            then (Inr (''Index already exists (no-op): '' @ ci_index_name stmt), db\<lparr>db_catalog := c1\<rparr>)
            else (Inl INVALID_CONSTRAINT, db\<lparr>db_catalog := c1\<rparr>)
        | (None, c1) \<Rightarrow>
            (case get_table c1 (ci_table_name stmt) of
               (None, c2) \<Rightarrow> (Inl TABLE_NOT_FOUND, db\<lparr>db_catalog := c2\<rparr>)
             | (Some table_entry, c2) \<Rightarrow>
                 let columns = get_columns c2 (t_table_id table_entry) in
                 if ci_column_names stmt = [] then (Inl SYNTAX_ERROR, db\<lparr>db_catalog := c2\<rparr>)
                 else
                   (case resolve_columns columns (ci_column_names stmt) of
                      Inl e \<Rightarrow> (Inl e, db\<lparr>db_catalog := c2\<rparr>)
                    | Inr ids \<Rightarrow>
                        let entry = \<lparr>index_id = 0, i_table_id = t_table_id table_entry,
                                     i_name = ci_index_name stmt, i_root_page_id = INVALID_PAGE_ID,
                                     is_unique = ci_unique stmt, is_primary = is_prim,
                                     column_ids = ids, i_create_sql = original_sql\<rparr>
                        in (case create_index (cat_env env) c2 entry of
                              (Inl e, c3) \<Rightarrow> (Inl e, db\<lparr>db_catalog := c3\<rparr>)
                            | (Inr created, c3) \<Rightarrow>
                                (case CreateIndex env (db_index_files db) created of
                                   (Inl e, files) \<Rightarrow>
                                     (Inl e, db\<lparr>db_catalog := c3, db_index_files := files\<rparr>)
                                 | (Inr tree, files) \<Rightarrow>
                                     (case set_index_root (cat_env env) c3 (index_id created)
                                             (root_page_id tree) of
                                        (Inl e, c4) \<Rightarrow>
                                          (Inl e, db\<lparr>db_catalog := c4, db_index_files := files\<rparr>)
                                      | (Inr u, c4) \<Rightarrow>
                                          (Inr (''Index created: '' @ i_name created),
                                           db\<lparr>db_catalog := c4, db_index_files := files\<rparr>)))))))"

text \<open>
  \<open>create_from_ast\<close>. The page of the heap root is allocated, the catalog rows are written,
  the primary-key index is created through \<open>create_index_from_ast\<close>, and the table file is
  created last; the catalog rows are dropped and the root page is freed where the table
  file cannot be created.
\<close>

definition create_from_ast ::
  "exec_env \<Rightarrow> Database \<Rightarrow> CreateTableStatement \<Rightarrow> string
     \<Rightarrow> (StatusCode + TableCatalogEntry) \<times> Database" where
  "create_from_ast env db stmt original_sql =
     (if ct_table_name stmt = [] then (Inl SYNTAX_ERROR, db)
      else if ct_columns stmt = [] then (Inl SYNTAX_ERROR, db)
      else if length (ct_columns stmt) > MAX_COLUMNS_PER_TABLE (cat_env env)
      then (Inl INVALID_CONSTRAINT, db)
      else
        case map_columns 0 (ct_columns stmt) [] False [] [] of
          Inl e \<Rightarrow> (Inl e, db)
        | Inr (cols, primary_key_name) \<Rightarrow>
            let def = \<lparr>td_id = 0, td_name = ct_table_name stmt, td_columns = cols,
                       td_schema_version = 1, td_next_column_id = u32 (length cols + 1)\<rparr>;
                (root, pm1) = pm_new_page (db_pm db) DATA;
                db1 = db\<lparr>db_pm := pm1\<rparr>
            in case create_table (cat_env env) (db_catalog db1) def root original_sql of
                 (Inl e, c1) \<Rightarrow> (Inl e, db1\<lparr>db_catalog := c1\<rparr>)
               | (Inr entry, c1) \<Rightarrow>
                   let db2 = db1\<lparr>db_catalog := c1\<rparr>;
                       pk_stmt = \<lparr>ci_index_name = t_name entry @ ''_pk'', ci_unique = True,
                                   ci_table_name = t_name entry,
                                   ci_column_names = [primary_key_name], ci_if_not_exists = True\<rparr>;
                       after_index =
                         (if primary_key_name \<noteq> []
                          then (case create_index_from_ast env db2 pk_stmt ''AUTO PRIMARY KEY INDEX'' True of
                                  (Inl e, db3) \<Rightarrow> (Inl e, db3)
                                | (Inr msg, db3) \<Rightarrow> (Inr (), db3))
                          else (Inr (), db2))
                   in (case after_index of
                         (Inl e, db3) \<Rightarrow> (Inl e, db3)
                       | (Inr u, db3) \<Rightarrow>
                           if \<not> table_file_opens env (t_table_id entry) then
                             (case drop_table (cat_env env) (db_catalog db3) (t_name entry) of
                                (Inl e, c4) \<Rightarrow> (Inl e, db3\<lparr>db_catalog := c4\<rparr>)
                              | (Inr dropped, c4) \<Rightarrow>
                                  (Inl IO_ERROR,
                                   db3\<lparr>db_catalog := c4,
                                       db_pm := pm_free_page (db_pm db3) (t_root_page_id entry)\<rparr>))
                           else (Inr entry,
                                 db3\<lparr>db_table_files := t_table_id entry # db_table_files db3\<rparr>)))"

text \<open>
  A database for concrete runs: the sample catalog with its table \<open>t\<close> (heap root page 5,
  empty), the primary-key index \<open>t_pk\<close> and a second index \<open>t_name\<close> on it, each with an
  empty tree in its file. \<open>tight_env\<close> is an environment in which the catalog page of the
  indexes has room for two entries, so that the page of \<open>sample_db\<close> is full; in
  \<open>no_table_file_env\<close> there is room, but no table file can be created.
\<close>

definition sample_indexes :: "IndexCatalogEntry list" where
  "sample_indexes =
     [\<lparr>index_id = 1, i_table_id = 1, i_name = ''t_name'', i_root_page_id = 2, is_unique = False,
       is_primary = False, column_ids = [2], i_create_sql = ''CREATE INDEX t_name ON t(name)''\<rparr>,
      \<lparr>index_id = 2, i_table_id = 1, i_name = ''t_pk'', i_root_page_id = 2, is_unique = True,
       is_primary = True, column_ids = [1], i_create_sql = ''AUTO PRIMARY KEY INDEX''\<rparr>]"

definition sample_db :: Database where
  "sample_db =
     \<lparr>db_catalog = sample_catalog\<lparr>indexes_page := sample_indexes, next_index_id := 3\<rparr>,
      db_pm = \<lparr>pm_pages = (\<lambda>_. None)(5 \<mapsto> empty_page DATA), pm_free_list = [], pm_next_page = 6\<rparr>,
      db_index_files = (\<lambda>_. None)(1 \<mapsto> file_of_tree (empty_tree sample_config False),
                                      2 \<mapsto> file_of_tree (empty_tree sample_config True)),
      db_table_files = [1]\<rparr>"

definition roomy_env :: exec_env where
  "roomy_env = \<lparr>cat_env = sample_env, tree_cfg = sample_config,
                 index_file_opens = (\<lambda>_. True), table_file_opens = (\<lambda>_. True)\<rparr>"

definition tight_env :: exec_env where
  "tight_env = roomy_env\<lparr>cat_env := sample_env\<lparr>indexes_page_fits := (\<lambda>pg e. length pg < 2)\<rparr>\<rparr>"

definition no_table_file_env :: exec_env where
  "no_table_file_env = roomy_env\<lparr>table_file_opens := (\<lambda>_. False)\<rparr>"

text \<open>The statement \<open>CREATE TABLE u (id INTEGER PRIMARY KEY)\<close>.\<close>

definition create_u :: CreateTableStatement where
  "create_u = \<lparr>ct_table_name = ''u'',
                ct_columns = [\<lparr>ast_name = ''id'', ast_type = INTEGER, ast_length = 0,
                               ast_constraint = \<lparr>ast_not_null = False, ast_primary_key = True,
                                                  ast_unique = False, ast_default_literal = None\<rparr>\<rparr>]\<rparr>"

definition create_u_sql :: string where
  "create_u_sql = ''CREATE TABLE u (id INTEGER PRIMARY KEY)''"

section \<open>INSERT and TRUNCATE (\<open>engine/dml_executor.cpp\<close>)\<close>

text \<open>
  \<open>decode_row_values\<close> and \<open>encode_values\<close> go through \<open>record::decode\<close>,
  \<open>record::encode\<close> and \<open>Value\<close>, which are not part of the sources at hand: they are
  parameters, next to the record codec of \<open>encode_row\<close>. \<open>decode_row_values\<close> returns one
  value per column or throws.
\<close>

record ('d, 'v) row_codec =
  rec_codec :: "'d record_codec"
  decode_row_values :: "ColumnCatalogEntry list \<Rightarrow> 8 word list \<Rightarrow> StatusCode + 'v list"
  encode_values :: "ColumnCatalogEntry list \<Rightarrow> 'v list \<Rightarrow> StatusCode + 8 word list"

record InsertStatement =
  ins_table_name :: string
  ins_column_names :: "string list"
  ins_rows :: "LiteralValue list list"

definition make_record_id :: "page_id_t \<times> nat \<Rightarrow> record_id_t" where
  "make_record_id loc = fst loc * 2 ^ 32 + snd loc"

text \<open>
  \<open>build_index_key\<close>: the columns and values of the index, in the order of its column ids;
  the lookup maps a column id to the first position that has it.
\<close>

fun key_parts ::
  "ColumnCatalogEntry list \<Rightarrow> 'v list \<Rightarrow> nat list
     \<Rightarrow> StatusCode + (ColumnCatalogEntry list \<times> 'v list)" where
  "key_parts columns row_values [] = Inr ([], [])"
| "key_parts columns row_values (cid # cids) =
     (case find_index (\<lambda>entry. column_id entry = cid) columns of
        None \<Rightarrow> Inl INVALID_ARGUMENT
      | Some i \<Rightarrow>
          (case key_parts columns row_values cids of
             Inl e \<Rightarrow> Inl e
           | Inr (key_columns, key_values) \<Rightarrow>
               Inr (columns ! i # key_columns, row_values ! i # key_values)))"

definition build_index_key ::
  "('d, 'v) row_codec \<Rightarrow> IndexCatalogEntry \<Rightarrow> ColumnCatalogEntry list \<Rightarrow> 'v list
     \<Rightarrow> StatusCode + key_t" where
  "build_index_key codec ctx columns row_values =
     (case key_parts columns row_values (column_ids ctx) of
        Inl e \<Rightarrow> Inl e
      | Inr (key_columns, key_values) \<Rightarrow> encode_values codec key_columns key_values)"

text \<open>
  The handles of the indexes of the table, opened in the order of \<open>load_table_indexes\<close>;
  a context is the catalog entry of an index with the tree of its handle.
\<close>

fun open_indexes ::
  "exec_env \<Rightarrow> (nat \<Rightarrow> IndexFile option) \<Rightarrow> IndexCatalogEntry list
     \<Rightarrow> (StatusCode + (IndexCatalogEntry \<times> BPlusTree) list) \<times> (nat \<Rightarrow> IndexFile option)" where
  "open_indexes env files [] = (Inr [], files)"
| "open_indexes env files (entry # entries) =
     (case OpenIndex env files entry of
        (Inl e, files1) \<Rightarrow> (Inl e, files1)
      | (Inr tree, files1) \<Rightarrow>
          (case open_indexes env files1 entries of
             (Inl e, files2) \<Rightarrow> (Inl e, files2)
           | (Inr ctxs, files2) \<Rightarrow> (Inr ((entry, tree) # ctxs), files2)))"

text \<open>
  The inner loop of \<open>insert_into\<close>: the key of the row goes into every index of the table
  in turn, and the root of the index is written back to the catalog. The loop stops at
  the first call that throws.
\<close>

fun index_row ::
  "nat \<Rightarrow> exec_env \<Rightarrow> ('d, 'v) row_codec \<Rightarrow> ColumnCatalogEntry list \<Rightarrow> 'v list \<Rightarrow> record_id_t
     \<Rightarrow> (IndexCatalogEntry \<times> BPlusTree) list \<Rightarrow> Database
     \<Rightarrow> ((StatusCode + (IndexCatalogEntry \<times> BPlusTree) list) \<times> Database) option" where
  "index_row fuel env codec columns row_values rid [] db = Some (Inr [], db)"
| "index_row fuel env codec columns row_values rid ((entry, tree) # ctxs) db =
     (case build_index_key codec entry columns row_values of
        Inl e \<Rightarrow> Some (Inl e, db)
      | Inr k \<Rightarrow>
          (case Insert fuel (tree_cfg env) tree k rid of
             None \<Rightarrow> None
           | Some (r, tree1) \<Rightarrow>
               let db1 = db\<lparr>db_index_files := (db_index_files db)(index_id entry \<mapsto> file_of_tree tree1)\<rparr>
               in (case r of
                     Inl e \<Rightarrow> Some (Inl e, db1)
                   | Inr u \<Rightarrow>
                       (case set_index_root (cat_env env) (db_catalog db1) (index_id entry)
                               (root_page_id tree1) of
                          (Inl e, c1) \<Rightarrow> Some (Inl e, db1\<lparr>db_catalog := c1\<rparr>)
                        | (Inr u, c1) \<Rightarrow>
                            (case index_row fuel env codec columns row_values rid ctxs
                                    (db1\<lparr>db_catalog := c1\<rparr>) of
                               None \<Rightarrow> None
                             | Some (Inl e, db2) \<Rightarrow> Some (Inl e, db2)
                             | Some (Inr ctxs1, db2) \<Rightarrow>
                                 Some (Inr ((entry\<lparr>i_root_page_id := root_page_id tree1\<rparr>, tree1) # ctxs1),
                                       db2))))))"

text \<open>
  The loop of \<open>insert_into\<close> over the rows of the statement: the row is encoded and
  decoded, inserted into the heap, and then indexed. The loop returns its state with the
  number of rows inserted: the index contexts and the heap object.
\<close>

fun insert_rows ::
  "nat \<Rightarrow> exec_env \<Rightarrow> ('d, 'v) row_codec \<Rightarrow> ColumnCatalogEntry list \<Rightarrow> string list
     \<Rightarrow> LiteralValue list list \<Rightarrow> nat \<Rightarrow> (IndexCatalogEntry \<times> BPlusTree) list \<Rightarrow> TableHeap
     \<Rightarrow> Database
     \<Rightarrow> ((StatusCode + nat \<times> (IndexCatalogEntry \<times> BPlusTree) list \<times> TableHeap) \<times> Database) option" where
  "insert_rows fuel env codec columns column_names [] inserted ctxs heap db =
     Some (Inr (inserted, ctxs, heap), db)"
| "insert_rows fuel env codec columns column_names (row_values # rest) inserted ctxs heap db =
     (if length row_values \<noteq> length column_names then Some (Inl INVALID_CONSTRAINT, db)
      else
        case encode_row (rec_codec codec) columns row_values column_names of
          Inl e \<Rightarrow> Some (Inl e, db)
        | Inr data \<Rightarrow>
            (case decode_row_values codec columns data of
               Inl e \<Rightarrow> Some (Inl e, db)
             | Inr decoded \<Rightarrow>
                 (case heap_insert fuel (tree_cfg env) (db_pm db) heap data of
                    None \<Rightarrow> None
                  | Some (Inl e, pm1, heap1) \<Rightarrow> Some (Inl e, db\<lparr>db_pm := pm1\<rparr>)
                  | Some (Inr location, pm1, heap1) \<Rightarrow>
                      (case index_row fuel env codec columns decoded (make_record_id location) ctxs
                              (db\<lparr>db_pm := pm1\<rparr>) of
                         None \<Rightarrow> None
                       | Some (Inl e, db1) \<Rightarrow> Some (Inl e, db1)
                       | Some (Inr ctxs1, db1) \<Rightarrow>
                           insert_rows fuel env codec columns column_names rest (Suc inserted)
                             ctxs1 heap1 db1))))"

text \<open>
  \<open>insert_into\<close> up to its loop over the rows: the table and its columns are looked up,
  the column list of the statement is completed and checked, the indexes of the table are
  opened and the heap is constructed.
\<close>

definition insert_prepare ::
  "nat \<Rightarrow> exec_env \<Rightarrow> Database \<Rightarrow> InsertStatement
     \<Rightarrow> ((StatusCode + (ColumnCatalogEntry list \<times> string list
                         \<times> (IndexCatalogEntry \<times> BPlusTree) list \<times> TableHeap))
         \<times> Database) option" where
  "insert_prepare fuel env db stmt =
     (case get_table (db_catalog db) (ins_table_name stmt) of
        (None, c1) \<Rightarrow> Some (Inl TABLE_NOT_FOUND, db\<lparr>db_catalog := c1\<rparr>)
      | (Some table_entry, c1) \<Rightarrow>
          let columns = get_columns c1 (t_table_id table_entry) in
          if columns = [] then Some (Inl INVALID_CONSTRAINT, db\<lparr>db_catalog := c1\<rparr>)
          else
            let column_names = (if ins_column_names stmt = []
                                then map (\<lambda>c. col_name (column c)) columns
                                else ins_column_names stmt)
            in if length column_names \<noteq> length columns
               then Some (Inl INVALID_CONSTRAINT, db\<lparr>db_catalog := c1\<rparr>)
               else
                 (case get_indexes c1 (t_table_id table_entry) of
                    (index_entries, c2) \<Rightarrow>
                      (case open_indexes env (db_index_files db) index_entries of
                         (Inl e, files) \<Rightarrow>
                           Some (Inl e, db\<lparr>db_catalog := c2, db_index_files := files\<rparr>)
                       | (Inr ctxs, files) \<Rightarrow>
                           let db1 = db\<lparr>db_catalog := c2, db_index_files := files\<rparr> in
                           (case TableHeap_new fuel (db_pm db1) (t_root_page_id table_entry) of
                              None \<Rightarrow> None
                            | Some (Inl e) \<Rightarrow> Some (Inl e, db1)
                            | Some (Inr heap) \<Rightarrow>
                                Some (Inr (columns, column_names, ctxs, heap), db1)))))"

definition insert_into ::
  "nat \<Rightarrow> exec_env \<Rightarrow> ('d, 'v) row_codec \<Rightarrow> Database \<Rightarrow> InsertStatement
     \<Rightarrow> ((StatusCode + nat) \<times> Database) option" where
  "insert_into fuel env codec db stmt =
     (case insert_prepare fuel env db stmt of
        None \<Rightarrow> None
      | Some (Inl e, db1) \<Rightarrow> Some (Inl e, db1)
      | Some (Inr (columns, column_names, ctxs, heap), db1) \<Rightarrow>
          (case insert_rows fuel env codec columns column_names (ins_rows stmt) 0 ctxs heap db1 of
             None \<Rightarrow> None
           | Some (Inl e, db2) \<Rightarrow> Some (Inl e, db2)
           | Some (Inr (inserted, ctxs1, heap1), db2) \<Rightarrow> Some (Inr inserted, db2)))"

text \<open>\<open>DMLExecutor::truncate\<close>: the table is looked up and its heap is truncated.\<close>

definition truncate_table ::
  "nat \<Rightarrow> Database \<Rightarrow> string \<Rightarrow> ((StatusCode + unit) \<times> Database) option" where
  "truncate_table fuel db nm =
     (case get_table (db_catalog db) nm of
        (None, c1) \<Rightarrow> Some (Inl TABLE_NOT_FOUND, db\<lparr>db_catalog := c1\<rparr>)
      | (Some table_entry, c1) \<Rightarrow>
          let db1 = db\<lparr>db_catalog := c1\<rparr> in
          (case TableHeap_new fuel (db_pm db1) (t_root_page_id table_entry) of
             None \<Rightarrow> None
           | Some (Inl e) \<Rightarrow> Some (Inl e, db1)
           | Some (Inr heap) \<Rightarrow>
               (case heap_truncate fuel (db_pm db1) heap of
                  None \<Rightarrow> None
                | Some (r, pm1, heap1) \<Rightarrow> Some (r, db1\<lparr>db_pm := pm1\<rparr>))))"

text \<open>
  The pages that a walk along the \<open>next\<close> links visits from a page on, as the loops of the
  heap do; \<open>None\<close> when the fuel does not reach the end of the chain or a page of it does
  not exist.
\<close>

fun chain_pages :: "nat \<Rightarrow> PageManager \<Rightarrow> page_id_t \<Rightarrow> page_id_t list option" where
  "chain_pages 0 pm current = None"
| "chain_pages (Suc fuel) pm current =
     (if is_valid_page current then
        (case pm_pages pm current of
           None \<Rightarrow> None
         | Some pg \<Rightarrow> map_option (Cons current) (chain_pages fuel pm (dp_next pg)))
      else Some [])"

text \<open>
  A codec for concrete runs over the record layout of \<open>sample_codec\<close>: a decoded value is
  the encoded field itself (type tag, null flag, length, payload), so that
  \<open>encode_values\<close> of the values of a row gives the row back.
\<close>

fun split_fields :: "nat \<Rightarrow> 8 word list \<Rightarrow> 8 word list list" where
  "split_fields 0 bs = []"
| "split_fields (Suc n) bs =
     (let len = unat (bs ! 2) + 256 * unat (bs ! 3)
      in take (4 + len) bs # split_fields n (drop (4 + len) bs))"

definition sample_row_codec :: "(unit, 8 word list) row_codec" where
  "sample_row_codec =
     \<lparr>rec_codec = sample_codec,
      decode_row_values = (\<lambda>columns data. Inr (split_fields (length columns) (drop 2 data))),
      encode_values = (\<lambda>columns vals. Inr (le_bytes 2 (length vals) @ concat vals))\<rparr>"

definition int_lit :: "string \<Rightarrow> LiteralValue" where
  "int_lit s = \<lparr>kind = LIT_INTEGER, literal_text = s, bool_value = False\<rparr>"

definition str_lit :: "string \<Rightarrow> LiteralValue" where
  "str_lit s = \<lparr>kind = LIT_STRING, literal_text = s, bool_value = False\<rparr>"

text \<open>\<open>INSERT INTO t VALUES (1, 'amy')\<close> and \<open>INSERT INTO t VALUES (1, 'bob')\<close>.\<close>

definition insert_amy :: InsertStatement where
  "insert_amy = \<lparr>ins_table_name = ''t'', ins_column_names = [],
                  ins_rows = [[int_lit ''1'', str_lit ''amy'']]\<rparr>"

definition insert_bob :: InsertStatement where
  "insert_bob = \<lparr>ins_table_name = ''t'', ins_column_names = [],
                  ins_rows = [[int_lit ''1'', str_lit ''bob'']]\<rparr>"

text \<open>\<open>INSERT INTO t VALUES (2, 'cat'), (1, 'bob')\<close>.\<close>

definition insert_cat_bob :: InsertStatement where
  "insert_cat_bob = \<lparr>ins_table_name = ''t'', ins_column_names = [],
                      ins_rows = [[int_lit ''2'', str_lit ''cat''], [int_lit ''1'', str_lit ''bob'']]\<rparr>"

text \<open>
  A database for concrete runs of TRUNCATE: table \<open>t\<close> of \<open>sample_db\<close> with a heap of two
  pages, 5 and 6, one row on each, and the two rows in both indexes.
\<close>

definition row_amy :: "8 word list" where
  "row_amy = [2, 0, 2, 0, 4, 0, 1, 0, 0, 0, 6, 0, 3, 0, 97, 109, 121]"

definition row_bob :: "8 word list" where
  "row_bob = [2, 0, 2, 0, 4, 0, 2, 0, 0, 0, 6, 0, 3, 0, 98, 111, 98]"

definition two_page_db :: Database where
  "two_page_db = sample_db\<lparr>
     db_pm := \<lparr>pm_pages = (\<lambda>_. None)
                  (5 \<mapsto> \<lparr>dp_type = DATA, dp_next = 6, dp_prev = 0, dp_slots = [(row_amy, False)]\<rparr>,
                   6 \<mapsto> \<lparr>dp_type = DATA, dp_next = 0, dp_prev = 5, dp_slots = [(row_bob, False)]\<rparr>),
               pm_free_list = [], pm_next_page = 7\<rparr>,
     db_index_files := (\<lambda>_. None)
        (1 \<mapsto> \<lparr>if_pages = (\<lambda>_. None)(2 \<mapsto> (MakeLeaf 2)\<lparr>leaf_entries :=
                     [([1, 0, 6, 0, 3, 0, 97, 109, 121], make_record_id (5, 0)),
                      ([1, 0, 6, 0, 3, 0, 98, 111, 98], make_record_id (6, 0))]\<rparr>),
                 if_next_page = 3\<rparr>,
         2 \<mapsto> \<lparr>if_pages = (\<lambda>_. None)(2 \<mapsto> (MakeLeaf 2)\<lparr>leaf_entries :=
                     [([1, 0, 2, 0, 4, 0, 1, 0, 0, 0], make_record_id (5, 0)),
                      ([1, 0, 2, 0, 4, 0, 2, 0, 0, 0], make_record_id (6, 0))]\<rparr>),
                 if_next_page = 3\<rparr>)\<rparr>"

text \<open>
  The sample database after \<open>INSERT INTO t VALUES (1, 'amy')\<close>: the row is in slot 0 of
  page 5, and each of the two indexes has one entry for it.
\<close>

definition amy_db :: Database where
  "amy_db =
     \<lparr>db_catalog = \<lparr>tables_page = [sample_table], columns_page = sample_columns,
                     indexes_page = sample_indexes, tables_loaded = True,
                     tables_cache = [sample_table], indexes_loaded = True,
                     indexes_cache = sample_indexes, next_table_id = 2, next_index_id = 3\<rparr>,
      db_pm = \<lparr>pm_pages = (\<lambda>_. None)
                  (5 \<mapsto> \<lparr>dp_type = DATA, dp_next = 0, dp_prev = 0, dp_slots = [(row_amy, False)]\<rparr>),
               pm_free_list = [], pm_next_page = 6\<rparr>,
      db_index_files = (\<lambda>_. None)
        (1 \<mapsto> \<lparr>if_pages = (\<lambda>_. None)(2 \<mapsto> (MakeLeaf 2)\<lparr>leaf_entries :=
                     [([1, 0, 6, 0, 3, 0, 97, 109, 121], make_record_id (5, 0))]\<rparr>),
                 if_next_page = 3\<rparr>,
         2 \<mapsto> \<lparr>if_pages = (\<lambda>_. None)(2 \<mapsto> (MakeLeaf 2)\<lparr>leaf_entries :=
                     [([1, 0, 2, 0, 4, 0, 1, 0, 0, 0], make_record_id (5, 0))]\<rparr>),
                 if_next_page = 3\<rparr>),
      db_table_files = [1]\<rparr>"

(* DEFINITIONS-END *)

section \<open>Properties\<close>

subsection \<open>Node encoding guards\<close>

lemma serialize_leaf_entries_oversized:
  "(k, v) \<in> set es \<Longrightarrow> length k > MAX_KEY_LENGTH cfg \<Longrightarrow>
   serialize_leaf_entries cfg at es m = Inl INVALID_ARGUMENT"
  by (induction cfg at es m rule: serialize_leaf_entries.induct) auto

text \<open>
  Claim C9. Serializing a leaf node that holds an entry whose key is longer than
  \<open>MAX_KEY_LENGTH\<close> bytes raises \<open>INVALID_ARGUMENT\<close> (whatever else is wrong with the node:
  every check that can fire before the key check raises the same code), and deserializing
  an INDEX page whose node magic is not \<open>kNodeMagic\<close> raises \<open>INVALID_RECORD_FORMAT\<close>.
\<close>

theorem node_encoding_guards:
  "(node_type n = LEAF \<and> (k, v) \<in> set (leaf_entries n) \<and> length k > MAX_KEY_LENGTH cfg
      \<longrightarrow> Serialize cfg n = Inl INVALID_ARGUMENT)
   \<and> (page_type page = INDEX \<and> magic (node_header page) \<noteq> kNodeMagic
      \<longrightarrow> Deserialize cfg page = Inl INVALID_RECORD_FORMAT)"
proof (intro conjI impI)
  assume a: "node_type n = LEAF \<and> (k, v) \<in> set (leaf_entries n) \<and> length k > MAX_KEY_LENGTH cfg"
  then have "serialize_leaf_entries cfg (kPageHeaderSize cfg + HeaderSize cfg) (leaf_entries n) (\<lambda>_. 0)
      = Inl INVALID_ARGUMENT"
    using serialize_leaf_entries_oversized by blast
  with a show "Serialize cfg n = Inl INVALID_ARGUMENT"
    by (simp add: Serialize_def Let_def key_count_def)
next
  assume "page_type page = INDEX \<and> magic (node_header page) \<noteq> kNodeMagic"
  then show "Deserialize cfg page = Inl INVALID_RECORD_FORMAT"
    by (simp add: Deserialize_def ReadHeader_def Let_def)
qed

text \<open>
  The two tests of the node suite: a leaf 900 with one key of 256 bytes \<open>'x'\<close> under a key
  limit of 255, and an INDEX page 77 whose magic was overwritten with \<open>0xDEADBEEF\<close>.
\<close>

theorem node_encoding_guards_witness:
  "Serialize \<lparr>BTREE_MAX_KEYS = 256, MAX_KEY_LENGTH = 255, kPageSize = 4096,
            kPageHeaderSize = 24, HeaderSize = 24, kSlotEntrySize = 6\<rparr>
     ((MakeLeaf 900)\<lparr>leaf_entries := [(replicate 256 0x78, 11)]\<rparr>) = Inl INVALID_ARGUMENT
   \<and> Deserialize \<lparr>BTREE_MAX_KEYS = 256, MAX_KEY_LENGTH = 255, kPageSize = 4096,
            kPageHeaderSize = 24, HeaderSize = 24, kSlotEntrySize = 6\<rparr>
       \<lparr>page_type = INDEX, hdr_page_id = 77,
        node_header = \<lparr>magic = 0xDEADBEEF, raw_node_type = 0, raw_key_count = 0,
           raw_parent_page_id = 0, raw_next_leaf_page_id = 0, raw_prev_leaf_page_id = 0,
           key_data_offset = 0\<rparr>,
        mem = (\<lambda>_. 0)\<rparr> = Inl INVALID_RECORD_FORMAT"
  using node_encoding_guards [of "(MakeLeaf 900)\<lparr>leaf_entries := [(replicate 256 0x78, 11)]\<rparr>"
      "replicate 256 0x78" 11
      "\<lparr>BTREE_MAX_KEYS = 256, MAX_KEY_LENGTH = 255, kPageSize = 4096,
            kPageHeaderSize = 24, HeaderSize = 24, kSlotEntrySize = 6\<rparr>"
      "\<lparr>page_type = INDEX, hdr_page_id = 77,
        node_header = \<lparr>magic = 0xDEADBEEF, raw_node_type = 0, raw_key_count = 0,
           raw_parent_page_id = 0, raw_next_leaf_page_id = 0, raw_prev_leaf_page_id = 0,
           key_data_offset = 0\<rparr>,
        mem = (\<lambda>_. 0)\<rparr>"]
  by (simp add: MakeLeaf_def kNodeMagic_def)

subsection \<open>ORDER BY, DISTINCT, LIMIT\<close>

text \<open>
  Claim C6 at a failing input. DISTINCT keeps the first row of every signature, and the
  signature of a row is the text \<open>type|value\<close> of its projected columns, joined by the
  character 0x1f, with \<open>NULL\<close> for a NULL value. Rows that differ on a projected column can
  have one signature. \<open>SELECT DISTINCT c0\<close> over the two rows NULL and \<open>'NULL'\<close> of a
  VARCHAR column returns one row, where the same SELECT without DISTINCT returns two; so
  does \<open>SELECT DISTINCT c0, c1\<close> over two rows whose strings contain the separator.
\<close>

theorem select_distinct_signature_collision:
  "select_postprocess text_ops [] False False [0] 10 [[None], [Some ''NULL'']] = [[''NULL''], [''NULL'']]
   \<and> select_postprocess text_ops [] False True [0] 10 [[None], [Some ''NULL'']] = [[''NULL'']]
   \<and> select_postprocess text_ops [] False False [0, 1] 10
        [[Some ''x'', Some (''y'' @ [char_of (31 :: nat)] @ ''6|z'')],
         [Some (''x'' @ [char_of (31 :: nat)] @ ''6|y''), Some ''z'']]
       = [[''x'', ''y'' @ [char_of (31 :: nat)] @ ''6|z''], [''x'' @ [char_of (31 :: nat)] @ ''6|y'', ''z'']]
   \<and> select_postprocess text_ops [] False True [0, 1] 10
        [[Some ''x'', Some (''y'' @ [char_of (31 :: nat)] @ ''6|z'')],
         [Some (''x'' @ [char_of (31 :: nat)] @ ''6|y''), Some ''z'']]
       = [[''x'', ''y'' @ [char_of (31 :: nat)] @ ''6|z'']]"
  by code_simp

lemma set_stable_insert: "set (stable_insert lt x xs) = insert x (set xs)"
  by (induction xs) auto

lemma mset_stable_insert: "mset (stable_insert lt x xs) = add_mset x (mset xs)"
  by (induction xs) auto

lemma mset_stable_sort: "mset (stable_sort lt xs) = mset xs"
  by (induction xs) (auto simp: mset_stable_insert)

text \<open>
  In the two lemmas below \<open>nn\<close> says that the primary sort key of an element is not NULL.
\<close>

lemma stable_insert_nulls_last:
  assumes A: "\<And>a b. nn a \<Longrightarrow> \<not> nn b \<Longrightarrow> lt a b"
      and B: "\<And>a b. \<not> nn a \<Longrightarrow> nn b \<Longrightarrow> \<not> lt a b"
  shows "sorted_wrt (\<lambda>a b. nn b \<longrightarrow> nn a) xs \<Longrightarrow>
         sorted_wrt (\<lambda>a b. nn b \<longrightarrow> nn a) (stable_insert lt x xs)"
proof (induction xs)
  case Nil
  then show ?case by simp
next
  case (Cons y ys)
  show ?case
  proof (cases "lt y x")
    case True
    have "\<forall>b\<in>set (stable_insert lt x ys). nn b \<longrightarrow> nn y"
      using Cons.prems True B [of y x] by (auto simp: set_stable_insert)
    then show ?thesis using Cons True by simp
  next
    case False
    have "nn y \<longrightarrow> nn x" using False A [of y x] by blast
    moreover have "\<forall>b\<in>set ys. nn b \<longrightarrow> nn x"
      using Cons.prems False A [of y x] by auto
    ultimately show ?thesis using Cons.prems False by simp
  qed
qed

lemma stable_sort_nulls_last:
  assumes A: "\<And>a b. nn a \<Longrightarrow> \<not> nn b \<Longrightarrow> lt a b"
      and B: "\<And>a b. \<not> nn a \<Longrightarrow> nn b \<Longrightarrow> \<not> lt a b"
  shows "sorted_wrt (\<lambda>a b. nn b \<longrightarrow> nn a) (stable_sort lt xs)"
  by (induction xs) (auto intro: stable_insert_nulls_last [OF A B])

lemma comparator_null_decides:
  "\<forall>u\<in>set before. ties ops u a b \<Longrightarrow>
   \<not> is_null ops (a ! value_index t) \<Longrightarrow> is_null ops (b ! value_index t) \<Longrightarrow>
   comparator ops (before @ t # after) a b \<and> \<not> comparator ops (before @ t # after) b a"
  by (induction before) (auto simp: ties_def Let_def split: CompareResult.splits)

text \<open>
  Claim C3 as stated fails for ascending terms: with \<open>ORDER BY c0 ASC\<close> over the rows
  (NULL) and (1), the NULL row comes last, not first.
\<close>

theorem order_by_nulls_first_counterexample:
  "select_postprocess int_ops [\<lparr>value_index = 0, ascending = True, term_column_id = 1\<rparr>]
      False False [0] 10 [[None], [Some 1]] = [[''1''], [''NULL'']]"
  by code_simp

text \<open>
  Claim C3, amended. The ORDER BY sort is a stable multi-key sort in which NULL sorts after
  every non-NULL value for ascending and for descending terms alike: in the sorted order
  no row whose primary key is NULL precedes a row whose primary key is not, the sort only
  permutes the rows, and on any term reached because all earlier terms tie, a row with a
  non-NULL value is ordered before a row with NULL, whatever the direction of the term.
\<close>

theorem order_by_nulls_last:
  "sorted_wrt (\<lambda>l r. is_null ops (rows ! l ! value_index t) \<longrightarrow> is_null ops (rows ! r ! value_index t))
      (stable_sort (\<lambda>l r. comparator ops (t # ts) (rows ! l) (rows ! r)) idxs)
   \<and> mset (stable_sort (\<lambda>l r. comparator ops (t # ts) (rows ! l) (rows ! r)) idxs) = mset idxs
   \<and> ((\<forall>u\<in>set before. ties ops u a b)
        \<and> \<not> is_null ops (a ! value_index t) \<and> is_null ops (b ! value_index t)
      \<longrightarrow> comparator ops (before @ t # after) a b \<and> \<not> comparator ops (before @ t # after) b a)"
proof (intro conjI impI)
  let ?nn = "\<lambda>i. \<not> is_null ops (rows ! i ! value_index t)"
  let ?lt = "\<lambda>l r. comparator ops (t # ts) (rows ! l) (rows ! r)"
  have "sorted_wrt (\<lambda>a b. ?nn b \<longrightarrow> ?nn a) (stable_sort ?lt idxs)"
    by (rule stable_sort_nulls_last) (auto simp: Let_def)
  then show "sorted_wrt (\<lambda>l r. is_null ops (rows ! l ! value_index t) \<longrightarrow> is_null ops (rows ! r ! value_index t))
      (stable_sort ?lt idxs)"
    by (rule sorted_wrt_mono_rel [rotated]) auto
next
  show "mset (stable_sort (\<lambda>l r. comparator ops (t # ts) (rows ! l) (rows ! r)) idxs) = mset idxs"
    by (rule mset_stable_sort)
next
  assume "(\<forall>u\<in>set before. ties ops u a b)
        \<and> \<not> is_null ops (a ! value_index t) \<and> is_null ops (b ! value_index t)"
  then show "comparator ops (before @ t # after) a b" "\<not> comparator ops (before @ t # after) b a"
    using comparator_null_decides [of before ops a b t after] by auto
qed

text \<open>
  \<open>ORDER BY c0 DESC, c1 ASC\<close>: the rows (5, 1) and (5, NULL) tie on the first term, and
  the second, ascending term puts the non-NULL value first.
\<close>

theorem order_by_nulls_last_witness:
  "ties int_ops \<lparr>value_index = 0, ascending = False, term_column_id = 1\<rparr> [Some 5, Some 1] [Some 5, None]
   \<and> \<not> is_null int_ops ([Some 5, Some (1::int)] ! 1) \<and> is_null int_ops ([Some (5::int), None] ! 1)
   \<and> comparator int_ops
        [\<lparr>value_index = 0, ascending = False, term_column_id = 1\<rparr>,
         \<lparr>value_index = 1, ascending = True, term_column_id = 2\<rparr>] [Some 5, Some 1] [Some 5, None]
   \<and> sorted_wrt (\<lambda>l r. is_null int_ops ([[None], [Some 1], [None], [Some 0]] ! l ! 0)
                      \<longrightarrow> is_null int_ops ([[None], [Some 1], [None], [Some 0]] ! r ! 0))
        (stable_sort (\<lambda>l r. comparator int_ops [\<lparr>value_index = 0, ascending = True, term_column_id = 1\<rparr>]
                          ([[None], [Some 1], [None], [Some 0]] ! l)
                          ([[None], [Some 1], [None], [Some 0]] ! r)) [0, 1, 2, 3])"
proof -
  have h: "(\<forall>u\<in>set [\<lparr>value_index = 0, ascending = False, term_column_id = 1\<rparr>].
       ties int_ops u [Some 5, Some 1] [Some 5, None])
   \<and> \<not> is_null int_ops ([Some 5, Some (1::int)] ! 1) \<and> is_null int_ops ([Some (5::int), None] ! 1)"
    by (simp add: ties_def int_ops_def)
  show ?thesis
    using h
      order_by_nulls_last [of int_ops "[[None], [Some 1], [None], [Some 0]]"
        "\<lparr>value_index = 0, ascending = True, term_column_id = 1\<rparr>" "[]" "[0, 1, 2, 3]"]
      order_by_nulls_last [of int_ops "[]"
        "\<lparr>value_index = 1, ascending = True, term_column_id = 2\<rparr>" "[]" "[]"
        "[\<lparr>value_index = 0, ascending = False, term_column_id = 1\<rparr>]" "[Some 5, Some 1]" "[Some 5, None]" "[]"]
    by simp
qed

subsection \<open>INSERT binds values to columns by name\<close>

lemma build_value_lookup_map_of:
  "length ns = length vs \<Longrightarrow> build_value_lookup ns vs m = map_of (zip ns vs) ++ m"
proof (induction ns vs m rule: build_value_lookup.induct)
  case (1 n ns v vs m)
  then show ?case
    by (auto simp: map_add_def fun_eq_iff split: option.splits)
qed auto

lemma perm_lookup:
  assumes "distinct ns" "length ns = length vs" "length ns' = length vs'"
    "mset (zip ns' vs') = mset (zip ns vs)"
  shows "map_of (zip ns' vs') = map_of (zip ns vs)"
proof -
  have "mset (map fst (zip ns' vs')) = mset (map fst (zip ns vs))"
    using assms(4) by (metis mset_map)
  then have "mset ns' = mset ns" using assms(2,3) by simp
  then have d: "distinct ns'" using assms(1) by (metis mset_eq_imp_distinct_iff)
  have "set (zip ns' vs') = set (zip ns vs)" using assms(4) by (metis set_mset_mset)
  then show ?thesis
    using map_of_inject_set [of "zip ns' vs'" "zip ns vs"] d assms(1,2,3) by simp
qed

lemma encode_fields_cong:
  "\<forall>c\<in>set columns. m (col_name (column c)) = m' (col_name (column c)) \<Longrightarrow>
     encode_fields rc columns m = encode_fields rc columns m'"
  by (induction columns) (auto split: option.splits sum.splits)

lemma encode_fields_in_order:
  "distinct (map (\<lambda>c. col_name (column c)) columns) \<Longrightarrow> length vs = length columns \<Longrightarrow>
     encode_fields rc columns (map_of (zip (map (\<lambda>c. col_name (column c)) columns) vs))
       = fields_in_order rc columns vs"
proof (induction columns arbitrary: vs)
  case Nil
  then show ?case by simp
next
  case (Cons c columns)
  from Cons.prems obtain v vs' where vs: "vs = v # vs'" and len: "length vs' = length columns"
    by (cases vs) auto
  let ?n = "col_name (column c)"
  let ?ns = "map (\<lambda>c. col_name (column c)) columns"
  from Cons.prems have notin: "?n \<notin> set ?ns" and dist: "distinct ?ns" by simp_all
  define M where "M = map_of (zip (map (\<lambda>c. col_name (column c)) (c # columns)) vs)"
  have Mn: "M ?n = Some v" by (simp add: M_def vs)
  have "encode_fields rc columns M = encode_fields rc columns (map_of (zip ?ns vs'))"
  proof (rule encode_fields_cong, rule ballI)
    fix ca assume "ca \<in> set columns"
    then have "col_name (column ca) \<in> set ?ns" by auto
    with notin have "col_name (column ca) \<noteq> ?n" by auto
    then show "M (col_name (column ca)) = map_of (zip ?ns vs') (col_name (column ca))"
      by (simp add: M_def vs)
  qed
  also have "\<dots> = fields_in_order rc columns vs'"
    by (rule Cons.IH [OF dist len])
  finally have rest: "encode_fields rc columns M = fields_in_order rc columns vs'" .
  have "encode_fields rc (c # columns) M = fields_in_order rc (c # columns) vs"
    by (simp add: Mn rest vs cong: sum.case_cong)
  then show ?case by (simp only: M_def)
qed

text \<open>
  Claim C10. With the active column names of the table pairwise distinct, an INSERT whose
  column list is any permutation of the complete active column list, its values permuted
  the same way, hands to the heap the payload that has the fields in the schema's ordinal
  order, the field of every column made from the value listed under the name of that
  column (or it fails with the error of the first column, in schema order, whose value
  cannot be converted). The INSERT without a column list, its values in schema order, gives
  the same: the row is encoded in schema order whatever the listed order.
\<close>

theorem insert_binds_by_name:
  assumes "distinct (map (\<lambda>c. col_name (column c)) columns)"
    and "length schema_values = length columns"
    and "length names' = length values'"
    and "mset (zip names' values') = mset (zip (map (\<lambda>c. col_name (column c)) columns) schema_values)"
  shows "insert_payload rc columns names' values' = payload_in_schema_order rc columns schema_values
     \<and> insert_payload rc columns [] schema_values = payload_in_schema_order rc columns schema_values"
proof (cases "columns = []")
  case True
  then show ?thesis by (simp add: insert_payload_def payload_in_schema_order_def)
next
  case False
  let ?schema = "map (\<lambda>c. col_name (column c)) columns"
  have "size (mset (zip names' values')) = size (mset (zip ?schema schema_values))"
    using assms(4) by simp
  then have len: "length names' = length columns"
    using assms(2,3) by simp
  then have ne: "names' \<noteq> []" using False by auto
  have "map_of (zip names' values') = map_of (zip ?schema schema_values)"
    using perm_lookup [OF assms(1) _ assms(3) assms(4)] assms(2) by simp
  then have lk: "build_value_lookup names' values' Map.empty = map_of (zip ?schema schema_values)"
    and lk0: "build_value_lookup ?schema schema_values Map.empty = map_of (zip ?schema schema_values)"
    using assms(2,3) by (simp_all add: build_value_lookup_map_of)
  note ord = encode_fields_in_order [OF assms(1,2), of rc]
  show ?thesis
    using False ne len assms(2,3) lk lk0 ord
    by (simp add: insert_payload_def encode_row_def payload_in_schema_order_def)
qed

text \<open>
  \<open>INSERT INTO t (name, id) VALUES ('amy', 258)\<close> and \<open>INSERT INTO t VALUES (258, 'amy')\<close>
  give one payload: two fields, the INTEGER 258 of \<open>id\<close> first and the VARCHAR \<open>amy\<close> of
  \<open>name\<close> second.
\<close>

theorem insert_binds_by_name_witness:
  "distinct (map (\<lambda>c. col_name (column c)) sample_columns)
   \<and> mset (zip [''name'', ''id''] [\<lparr>kind = LIT_STRING, literal_text = ''amy'', bool_value = False\<rparr>,
                                     \<lparr>kind = LIT_INTEGER, literal_text = ''258'', bool_value = False\<rparr>])
     = mset (zip (map (\<lambda>c. col_name (column c)) sample_columns)
               [\<lparr>kind = LIT_INTEGER, literal_text = ''258'', bool_value = False\<rparr>,
                \<lparr>kind = LIT_STRING, literal_text = ''amy'', bool_value = False\<rparr>])
   \<and> payload_in_schema_order sample_codec sample_columns
        [\<lparr>kind = LIT_INTEGER, literal_text = ''258'', bool_value = False\<rparr>,
         \<lparr>kind = LIT_STRING, literal_text = ''amy'', bool_value = False\<rparr>]
     = Inr [2, 0, 2, 0, 4, 0, 2, 1, 0, 0, 6, 0, 3, 0, 97, 109, 121]
   \<and> insert_payload sample_codec sample_columns [''name'', ''id'']
        [\<lparr>kind = LIT_STRING, literal_text = ''amy'', bool_value = False\<rparr>,
         \<lparr>kind = LIT_INTEGER, literal_text = ''258'', bool_value = False\<rparr>]
     = Inr [2, 0, 2, 0, 4, 0, 2, 1, 0, 0, 6, 0, 3, 0, 97, 109, 121]
   \<and> insert_payload sample_codec sample_columns []
        [\<lparr>kind = LIT_INTEGER, literal_text = ''258'', bool_value = False\<rparr>,
         \<lparr>kind = LIT_STRING, literal_text = ''amy'', bool_value = False\<rparr>]
     = Inr [2, 0, 2, 0, 4, 0, 2, 1, 0, 0, 6, 0, 3, 0, 97, 109, 121]"
proof -
  let ?a = "\<lparr>kind = LIT_STRING, literal_text = ''amy'', bool_value = False\<rparr>"
  let ?i = "\<lparr>kind = LIT_INTEGER, literal_text = ''258'', bool_value = False\<rparr>"
  have d: "distinct (map (\<lambda>c. col_name (column c)) sample_columns)"
    by (simp add: sample_columns_def)
  have m: "mset (zip [''name'', ''id''] [?a, ?i])
      = mset (zip (map (\<lambda>c. col_name (column c)) sample_columns) [?i, ?a])"
    by (simp add: sample_columns_def)
  have l1: "length [?i, ?a] = length sample_columns" by (simp add: sample_columns_def)
  have l2: "length [''name'', ''id''] = length [?a, ?i]" by simp
  have v: "payload_in_schema_order sample_codec sample_columns [?i, ?a]
     = Inr [2, 0, 2, 0, 4, 0, 2, 1, 0, 0, 6, 0, 3, 0, 97, 109, 121]"
    by (simp add: payload_in_schema_order_def encode_field_def sample_codec_def le_bytes_def
        sample_columns_def type_tag_def upt_conv_Cons)
  note e = insert_binds_by_name [OF d l1 l2 m, of sample_codec]
  show ?thesis
    apply (intro conjI)
        apply (rule d)
       apply (rule m)
      apply (rule v)
     apply (simp only: e v)
    apply (simp only: e v)
    done
qed

subsection \<open>Catalog: \<open>add_column\<close> then \<open>drop_column\<close>\<close>

lemma column_entry_less_key:
  "column_entry_less a b \<longleftrightarrow> column_sort_key a < column_sort_key b"
  by (auto simp: column_entry_less_def column_sort_key_def less_prod_def)

lemma stable_insert_insort_key:
  fixes f :: "'a \<Rightarrow> 'k::linorder"
  shows "stable_insert (\<lambda>a b. f a < f b) x xs = insort_key f x xs"
  by (induction xs) (auto simp: not_less)

lemma stable_sort_sort_key:
  fixes f :: "'a \<Rightarrow> 'k::linorder"
  shows "stable_sort (\<lambda>a b. f a < f b) xs = sort_key f xs"
  by (induction xs) (auto simp: stable_insert_insort_key)

lemma stable_sort_columns: "stable_sort column_entry_less xs = sort_key column_sort_key xs"
proof -
  have h: "column_entry_less = (\<lambda>a b. column_sort_key a < column_sort_key b)"
    by (intro ext) (rule column_entry_less_key)
  show ?thesis unfolding h by (rule stable_sort_sort_key)
qed

lemma rewrite_page_ok:
  "rewrite_page fits pg es = (Inr u, pg') \<Longrightarrow> pg' = pg @ es"
proof (induction es arbitrary: pg)
  case Nil
  then show ?case by simp
next
  case (Cons a es)
  then have "fits pg a" and "rewrite_page fits (pg @ [a]) es = (Inr u, pg')"
    by (auto split: if_splits)
  then have "pg' = (pg @ [a]) @ es" using Cons.IH by blast
  then show ?case by simp
qed

lemma get_columns_sort_key:
  "get_columns c tid = sort_key column_sort_key (filter (is_active_of tid) (columns_page c))"
proof -
  have "filter (\<lambda>e. \<not> is_dropped e) (filter (\<lambda>e. table_id e = tid) (columns_page c))
      = filter (is_active_of tid) (columns_page c)"
    by (auto simp: is_active_of_def intro: filter_cong)
  then show ?thesis
    by (simp add: get_columns_def read_all_columns_of_def stable_sort_columns filter_sort)
qed

lemma sort_key_sorted_id:
  "sorted (map f xs) \<Longrightarrow> sort_key f xs = xs"
  by (rule sort_key_id_if_sorted)


lemma find_target_none:
  "filter (is_named tid nm) ys = [] \<Longrightarrow> find_target tid nm ys j tg = tg"
  by (induction ys arbitrary: j) (auto split: if_splits)

lemma find_target_unique:
  assumes "filter (is_named tid nm) xs = [x]"
  shows "\<exists>t. find_target tid nm xs i tgt = Some (i + t) \<and> t < length xs \<and> xs ! t = x
            \<and> filter (is_named tid nm) (take t xs) = [] \<and> filter (is_named tid nm) (drop (Suc t) xs) = []"
proof -
  have gen: "\<And>i tgt. \<exists>t. find_target tid nm xs i tgt = Some (i + t) \<and> t < length xs \<and> xs ! t = x
            \<and> filter (is_named tid nm) (take t xs) = [] \<and> filter (is_named tid nm) (drop (Suc t) xs) = []"
    using assms
  proof (induction xs)
    case Nil
    then show ?case by simp
  next
    case (Cons y ys)
    show ?case
    proof (cases "is_named tid nm y")
      case True
      then have ys: "filter (is_named tid nm) ys = []" and yx: "y = x"
        using Cons.prems by auto
      show ?thesis
        by (rule exI [of _ 0])
           (use True ys yx in \<open>simp add: find_target_none\<close>)
    next
      case False
      then have "filter (is_named tid nm) ys = [x]" using Cons.prems by simp
      from Cons.IH [OF this, of "Suc i" tgt] obtain t where
        t: "find_target tid nm ys (Suc i) tgt = Some (Suc i + t)" "t < length ys" "ys ! t = x"
           "filter (is_named tid nm) (take t ys) = []" "filter (is_named tid nm) (drop (Suc t) ys) = []"
        by blast
      show ?thesis
        by (rule exI [of _ "Suc t"])
           (use False t in \<open>simp\<close>)
    qed
  qed
  show ?thesis by (rule gen)
qed


lemma is_active_of_upd [simp]:
  "is_active_of tid (e\<lparr>ordinal_position := x\<rparr>) = is_active_of tid e"
  "is_active_of tid (e\<lparr>schema_version := y\<rparr>) = is_active_of tid e"
  by (simp_all add: is_active_of_def)

lemma renumber_filter:
  "(i \<le> t \<Longrightarrow> t - i < length ys \<Longrightarrow> \<not> is_active_of tid (ys ! (t - i))) \<Longrightarrow>
   filter (is_active_of tid) (renumber tid t i ord ys) = renum_list ord (filter (is_active_of tid) ys)"
proof (induction ys arbitrary: i ord)
  case Nil
  then show ?case by simp
next
  case (Cons e es)
  have tail: "\<And>ord'. filter (is_active_of tid) (renumber tid t (Suc i) ord' es)
      = renum_list ord' (filter (is_active_of tid) es)"
  proof (rule Cons.IH)
    assume a: "Suc i \<le> t" "t - Suc i < length es"
    then have "t - i = Suc (t - Suc i)" by arith
    then have "(e # es) ! (t - i) = es ! (t - Suc i)"
      by simp
    moreover have "\<not> is_active_of tid ((e # es) ! (t - i))"
      using Cons.prems a by auto
    ultimately show "\<not> is_active_of tid (es ! (t - Suc i))" by simp
  qed
  show ?case
  proof (cases "is_active_of tid e")
    case True
    then have "i \<noteq> t" using Cons.prems [of ] by (cases "i = t") auto
    then show ?thesis using True tail by simp
  next
    case False
    then show ?thesis using tail by simp
  qed
qed

lemma renum_list_names:
  "map (\<lambda>e. (col_name (column e), col_type (column e))) (renum_list k L)
     = map (\<lambda>e. (col_name (column e), col_type (column e))) L"
  by (induction L arbitrary: k) auto

lemma u32_id: "n \<le> UINT32_MAX \<Longrightarrow> u32 n = n"
  by (simp add: u32_def UINT32_MAX_def)

lemma renum_list_ordinals:
  "k + length L \<le> Suc UINT32_MAX \<Longrightarrow> map ordinal_position (renum_list k L) = [k..<k + length L]"
proof (induction L arbitrary: k)
  case Nil
  then show ?case by simp
next
  case (Cons e es)
  show ?case
  proof (cases es)
    case Nil
    then show ?thesis by (simp add: upt_conv_Cons)
  next
    case (Cons e' es')
    then have "Suc k \<le> UINT32_MAX" using Cons.prems by simp
    then have u: "u32 (k + 1) = Suc k" using u32_id [of "Suc k"] by simp
    have ih: "map ordinal_position (renum_list (Suc k) es) = [Suc k..<Suc k + length es]"
      using Cons.IH [of "Suc k"] Cons.prems by simp
    have "[k..<k + length (e # es)] = k # [Suc k..<Suc k + length es]"
      by (simp add: upt_conv_Cons del: upt_Suc)
    then show ?thesis using u ih by simp
  qed
qed

lemma renum_list_active:
  "\<forall>e\<in>set L. is_active_of tid e \<Longrightarrow> \<forall>e\<in>set (renum_list k L). is_active_of tid e"
  by (induction L arbitrary: k) simp_all

lemma sorted_key_by_ordinal:
  assumes "\<forall>e\<in>set L. is_active_of tid e"
    and "sorted_wrt (<) (map ordinal_position L)"
  shows "sorted (map column_sort_key L)"
proof -
  have "sorted_wrt (\<lambda>a b. ordinal_position a < ordinal_position b) L"
    using assms(2) by (simp add: sorted_wrt_map)
  then have "sorted_wrt (\<lambda>a b. column_sort_key a \<le> column_sort_key b) L"
  proof (rule sorted_wrt_mono_rel [rotated])
    fix a b assume "a \<in> set L" "b \<in> set L" "ordinal_position a < ordinal_position b"
    then show "column_sort_key a \<le> column_sort_key b"
      using assms(1) by (simp add: column_sort_key_def is_active_of_def less_eq_prod_def)
  qed
  then show ?thesis by (simp add: sorted_map)
qed

lemma rewrite_columns_page_Inr:
  "rewrite_columns_page env c es = (Inr u, c') \<Longrightarrow> c' = c\<lparr>columns_page := es\<rparr>"
  by (auto simp: rewrite_columns_page_def split: prod.splits dest: rewrite_page_ok)

lemma rewrite_tables_page_Inr:
  "rewrite_tables_page env c es = (Inr u, c') \<Longrightarrow> c' = c\<lparr>tables_page := es\<rparr>"
  by (auto simp: rewrite_tables_page_def split: prod.splits dest: rewrite_page_ok)

lemma add_column_Inr:
  assumes "add_column env c tid col position = (Inr added, c')"
  obtains ti p where
    "find_index (\<lambda>entry. t_table_id entry = tid) (tables_cache (load_tables_cache c)) = Some ti"
    "filter (is_named tid (col_name col)) (read_all_columns c) = []"
    "p \<le> u32 (length (filter (is_active_of tid) (read_all_columns c)))"
    "added = \<lparr>table_id = tid,
              column_id = t_next_column_id (tables_cache (load_tables_cache c) ! ti),
              ordinal_position = p,
              schema_version = u32 (Suc (t_schema_version (tables_cache (load_tables_cache c) ! ti))),
              is_dropped = False,
              column = col\<lparr>col_id := t_next_column_id (tables_cache (load_tables_cache c) ! ti)\<rparr>\<rparr>"
    "columns_page c' = stable_sort column_entry_less
        (map (shift_entry tid p (u32 (Suc (t_schema_version (tables_cache (load_tables_cache c) ! ti)))))
             (read_all_columns c) @ [added])"
    "tables_loaded c'"
    "tables_cache c' = (tables_cache (load_tables_cache c))[ti :=
        (tables_cache (load_tables_cache c) ! ti)\<lparr>
           t_schema_version := u32 (Suc (t_schema_version (tables_cache (load_tables_cache c) ! ti))),
           t_next_column_id := u32 (Suc (t_next_column_id (tables_cache (load_tables_cache c) ! ti)))\<rparr>]"
proof -
  let ?c1 = "load_tables_cache c"
  have rc: "read_all_columns ?c1 = read_all_columns c"
    by (simp add: read_all_columns_def load_tables_cache_def)
  have ld: "tables_loaded ?c1" by (simp add: load_tables_cache_def)
  from assms obtain ti where ti:
    "find_index (\<lambda>entry. t_table_id entry = tid) (tables_cache ?c1) = Some ti"
    by (auto simp: add_column_def Let_def split: option.splits)
  let ?tbl = "tables_cache ?c1 ! ti"
  let ?p = "case position of Some p \<Rightarrow> p | None \<Rightarrow> u32 (length (filter (is_active_of tid) (read_all_columns c)))"
  let ?v = "u32 (Suc (t_schema_version ?tbl))"
  let ?new = "\<lparr>table_id = tid, column_id = t_next_column_id ?tbl, ordinal_position = ?p,
              schema_version = ?v, is_dropped = False,
              column = col\<lparr>col_id := t_next_column_id ?tbl\<rparr>\<rparr>"
  let ?sorted = "stable_sort column_entry_less (map (shift_entry tid ?p ?v) (read_all_columns c) @ [?new])"
  from assms ti have nodup: "filter (is_named tid (col_name col)) (read_all_columns c) = []"
    by (simp add: add_column_def Let_def rc split: if_splits)
  from assms ti nodup have pos: "?p \<le> u32 (length (filter (is_active_of tid) (read_all_columns c)))"
    by (simp add: add_column_def Let_def rc split: if_splits)
  from assms ti nodup pos obtain u c2 u' c4 where
    c2: "rewrite_columns_page env ?c1 ?sorted = (Inr u, c2)" and
    c4: "rewrite_tables_page env
           (c2\<lparr>tables_cache := (tables_cache c2)[ti :=
              ?tbl\<lparr>t_schema_version := ?v, t_next_column_id := u32 (Suc (t_next_column_id ?tbl))\<rparr>]\<rparr>)
           ((tables_cache c2)[ti :=
              ?tbl\<lparr>t_schema_version := ?v, t_next_column_id := u32 (Suc (t_next_column_id ?tbl))\<rparr>])
         = (Inr u', c4)" and
    res: "added = ?new" "c' = c4"
    by (auto simp: add_column_def Let_def rc split: if_splits prod.splits sum.splits)
  have c2eq: "c2 = ?c1\<lparr>columns_page := ?sorted\<rparr>" using c2 by (rule rewrite_columns_page_Inr)
  let ?c3 = "c2\<lparr>tables_cache := (tables_cache c2)[ti :=
                      ?tbl\<lparr>t_schema_version := ?v, t_next_column_id := u32 (Suc (t_next_column_id ?tbl))\<rparr>]\<rparr>"
  from c4 have c4eq: "c4 = ?c3\<lparr>tables_page := (tables_cache c2)[ti :=
              ?tbl\<lparr>t_schema_version := ?v, t_next_column_id := u32 (Suc (t_next_column_id ?tbl))\<rparr>]\<rparr>"
    by (rule rewrite_tables_page_Inr)
  show ?thesis
  proof (rule that [of ti ?p])
    show "find_index (\<lambda>entry. t_table_id entry = tid) (tables_cache ?c1) = Some ti" by (rule ti)
    show "filter (is_named tid (col_name col)) (read_all_columns c) = []" by (rule nodup)
    show "?p \<le> u32 (length (filter (is_active_of tid) (read_all_columns c)))" by (rule pos)
    show "added = ?new" by (rule res)
    show "columns_page c' = stable_sort column_entry_less
        (map (shift_entry tid ?p ?v) (read_all_columns c) @ [added])"
      using res c4eq c2eq by simp
    show "tables_loaded c'" using res c4eq c2eq ld by simp
    show "tables_cache c' = (tables_cache ?c1)[ti :=
        ?tbl\<lparr>t_schema_version := ?v, t_next_column_id := u32 (Suc (t_next_column_id ?tbl))\<rparr>]"
      using res c4eq c2eq by simp
  qed
qed


lemma drop_column_Inr:
  assumes "drop_column env c tid nm = (Inr dropped, c')"
  obtains ti t where
    "find_index (\<lambda>entry. t_table_id entry = tid) (tables_cache (load_tables_cache c)) = Some ti"
    "find_target tid nm (read_all_columns c) 0 None = Some t"
    "columns_page c' = stable_sort column_entry_less
        (renumber tid t 0 0
           (map (set_version tid (u32 (Suc (t_schema_version (tables_cache (load_tables_cache c) ! ti)))))
              ((read_all_columns c)[t := (read_all_columns c ! t)\<lparr>
                   is_dropped := True,
                   schema_version := u32 (Suc (t_schema_version (tables_cache (load_tables_cache c) ! ti))),
                   ordinal_position := UINT32_MAX\<rparr>])))"
    "tables_loaded c'"
    "tables_cache c' = (tables_cache (load_tables_cache c))[ti :=
        (tables_cache (load_tables_cache c) ! ti)\<lparr>
           t_schema_version := u32 (Suc (t_schema_version (tables_cache (load_tables_cache c) ! ti)))\<rparr>]"
proof -
  let ?c1 = "load_tables_cache c"
  have rc: "read_all_columns ?c1 = read_all_columns c"
    by (simp add: read_all_columns_def load_tables_cache_def)
  have ld: "tables_loaded ?c1" by (simp add: load_tables_cache_def)
  from assms obtain ti where ti:
    "find_index (\<lambda>entry. t_table_id entry = tid) (tables_cache ?c1) = Some ti"
    by (auto simp: drop_column_def Let_def split: option.splits)
  from assms ti obtain t where t: "find_target tid nm (read_all_columns c) 0 None = Some t"
    by (auto simp: drop_column_def Let_def rc split: option.splits)
  let ?tbl = "tables_cache ?c1 ! ti"
  let ?v = "u32 (Suc (t_schema_version ?tbl))"
  let ?D = "(read_all_columns c ! t)\<lparr>is_dropped := True, schema_version := ?v,
                                       ordinal_position := UINT32_MAX\<rparr>"
  let ?sorted = "stable_sort column_entry_less
        (renumber tid t 0 0 (map (set_version tid ?v) ((read_all_columns c)[t := ?D])))"
  from assms ti t obtain u c2 u' c4 where
    c2: "rewrite_columns_page env ?c1 ?sorted = (Inr u, c2)" and
    c4: "rewrite_tables_page env
           (c2\<lparr>tables_cache := (tables_cache c2)[ti := ?tbl\<lparr>t_schema_version := ?v\<rparr>]\<rparr>)
           ((tables_cache c2)[ti := ?tbl\<lparr>t_schema_version := ?v\<rparr>])
         = (Inr u', c4)" and
    res: "c' = c4"
    by (auto simp: drop_column_def Let_def rc split: if_splits prod.splits sum.splits)
  have c2eq: "c2 = ?c1\<lparr>columns_page := ?sorted\<rparr>" using c2 by (rule rewrite_columns_page_Inr)
  from c4 have c4eq: "c4 = c2\<lparr>tables_cache := (tables_cache c2)[ti := ?tbl\<lparr>t_schema_version := ?v\<rparr>],
                              tables_page := (tables_cache c2)[ti := ?tbl\<lparr>t_schema_version := ?v\<rparr>]\<rparr>"
    by (rule rewrite_tables_page_Inr)
  show ?thesis
  proof (rule that [of ti t])
    show "find_index (\<lambda>entry. t_table_id entry = tid) (tables_cache ?c1) = Some ti" by (rule ti)
    show "find_target tid nm (read_all_columns c) 0 None = Some t" by (rule t)
    show "columns_page c' = ?sorted" using res c4eq c2eq by simp
    show "tables_loaded c'" using res c4eq c2eq ld by simp
    show "tables_cache c' = (tables_cache ?c1)[ti := ?tbl\<lparr>t_schema_version := ?v\<rparr>]"
      using res c4eq c2eq by simp
  qed
qed

lemma find_index_Some:
  "find_index P xs = Some i \<Longrightarrow> i < length xs \<and> P (xs ! i) \<and> find P xs = Some (xs ! i)
     \<and> (\<forall>y. P y \<longrightarrow> find P (xs[i := y]) = Some y)"
proof (induction xs arbitrary: i)
  case Nil
  then show ?case by simp
next
  case (Cons x xs)
  show ?case
  proof (cases "P x")
    case True
    then show ?thesis using Cons.prems by auto
  next
    case False
    then obtain j where j: "find_index P xs = Some j" "i = Suc j"
      using Cons.prems by auto
    from Cons.IH [OF j(1)] show ?thesis using False j(2) by simp
  qed
qed

lemma table_schema_version_loaded:
  "tables_loaded c \<Longrightarrow>
   table_schema_version c tid = map_option t_schema_version (find (\<lambda>e. t_table_id e = tid) (tables_cache c))"
  by (simp add: table_schema_version_def get_table_by_id_def load_tables_cache_def Let_def)

lemma table_schema_version_load:
  "table_schema_version c tid
     = map_option t_schema_version (find (\<lambda>e. t_table_id e = tid) (tables_cache (load_tables_cache c)))"
  by (simp add: table_schema_version_def get_table_by_id_def Let_def)

lemma add_column_version:
  assumes "add_column env c tid col position = (Inr added, c1)"
    and "table_schema_version c tid = Some v" and "v < UINT32_MAX"
  shows "table_schema_version c1 tid = Some (Suc v)"
proof -
  from assms(1) obtain ti p where
    ti: "find_index (\<lambda>entry. t_table_id entry = tid) (tables_cache (load_tables_cache c)) = Some ti"
    and ld: "tables_loaded c1"
    and tc: "tables_cache c1 = (tables_cache (load_tables_cache c))[ti :=
        (tables_cache (load_tables_cache c) ! ti)\<lparr>
           t_schema_version := u32 (Suc (t_schema_version (tables_cache (load_tables_cache c) ! ti))),
           t_next_column_id := u32 (Suc (t_next_column_id (tables_cache (load_tables_cache c) ! ti)))\<rparr>]"
    by (rule add_column_Inr)
  let ?xs = "tables_cache (load_tables_cache c)"
  note fi = find_index_Some [OF ti]
  have v: "t_schema_version (?xs ! ti) = v"
    using assms(2) fi by (simp add: table_schema_version_load)
  have "u32 (Suc v) = Suc v" using assms(3) by (intro u32_id) simp
  moreover have "find (\<lambda>e. t_table_id e = tid) (tables_cache c1)
      = Some ((?xs ! ti)\<lparr>t_schema_version := u32 (Suc (t_schema_version (?xs ! ti))),
                          t_next_column_id := u32 (Suc (t_next_column_id (?xs ! ti)))\<rparr>)"
    unfolding tc using fi by simp
  ultimately show ?thesis using ld v by (simp add: table_schema_version_loaded)
qed

lemma drop_column_version:
  assumes "drop_column env c tid nm = (Inr dropped, c1)"
    and "table_schema_version c tid = Some v" and "v < UINT32_MAX"
  shows "table_schema_version c1 tid = Some (Suc v)"
proof -
  from assms(1) obtain ti t where
    ti: "find_index (\<lambda>entry. t_table_id entry = tid) (tables_cache (load_tables_cache c)) = Some ti"
    and ld: "tables_loaded c1"
    and tc: "tables_cache c1 = (tables_cache (load_tables_cache c))[ti :=
        (tables_cache (load_tables_cache c) ! ti)\<lparr>
           t_schema_version := u32 (Suc (t_schema_version (tables_cache (load_tables_cache c) ! ti)))\<rparr>]"
    by (rule drop_column_Inr)
  let ?xs = "tables_cache (load_tables_cache c)"
  note fi = find_index_Some [OF ti]
  have v: "t_schema_version (?xs ! ti) = v"
    using assms(2) fi by (simp add: table_schema_version_load)
  have "u32 (Suc v) = Suc v" using assms(3) by (intro u32_id) simp
  moreover have "find (\<lambda>e. t_table_id e = tid) (tables_cache c1)
      = Some ((?xs ! ti)\<lparr>t_schema_version := u32 (Suc (t_schema_version (?xs ! ti)))\<rparr>)"
    unfolding tc using fi by simp
  ultimately show ?thesis using ld v by (simp add: table_schema_version_loaded)
qed


lemma shift_entry_props [simp]:
  "is_active_of tid (shift_entry tid p v e) = is_active_of tid e"
  "is_named tid nm (shift_entry tid p v e) = is_named tid nm e"
  "column (shift_entry tid p v e) = column e"
  by (simp_all add: shift_entry_def is_active_of_def is_named_def)

lemma set_version_props [simp]:
  "is_active_of tid (set_version tid v e) = is_active_of tid e"
  "column (set_version tid v e) = column e"
  "ordinal_position (set_version tid v e) = ordinal_position e"
  by (simp_all add: set_version_def is_active_of_def)

lemma filter_map_pres:
  "(\<And>x. P (f x) = P x) \<Longrightarrow> filter P (map f xs) = map f (filter P xs)"
  by (induction xs) auto

lemma sort_key_idem: "sort_key f (sort_key f xs) = sort_key f xs"
  by (rule sort_key_id_if_sorted) simp

lemma named_active: "is_named tid nm e \<Longrightarrow> is_active_of tid e"
  by (simp add: is_named_def is_active_of_def)

lemma shift_sorted:
  assumes act: "\<forall>e\<in>set A. is_active_of tid e"
    and sorted: "sorted (map column_sort_key A)"
    and range: "\<forall>e\<in>set A. ordinal_position e < UINT32_MAX"
  shows "sorted (map column_sort_key (map (shift_entry tid p v) A))"
proof -
  have "sorted_wrt (\<lambda>a b. column_sort_key a \<le> column_sort_key b) A"
    using sorted by (simp add: sorted_map)
  then have "sorted_wrt (\<lambda>a b. column_sort_key (shift_entry tid p v a) \<le> column_sort_key (shift_entry tid p v b)) A"
  proof (rule sorted_wrt_mono_rel [rotated])
    fix a b assume a: "a \<in> set A" and b: "b \<in> set A"
      and le: "column_sort_key a \<le> column_sort_key b"
    from a b act have aa: "is_active_of tid a" and ab: "is_active_of tid b" by auto
    from a b range have "Suc (ordinal_position a) \<le> UINT32_MAX" "Suc (ordinal_position b) \<le> UINT32_MAX"
      by auto
    then have ua: "u32 (Suc (ordinal_position a)) = Suc (ordinal_position a)"
      and ub: "u32 (Suc (ordinal_position b)) = Suc (ordinal_position b)"
      by (simp_all add: u32_id)
    from le aa ab have "ordinal_position a < ordinal_position b
        \<or> (ordinal_position a = ordinal_position b \<and> column_id a \<le> column_id b)"
      by (auto simp: column_sort_key_def is_active_of_def less_eq_prod_def)
    then show "column_sort_key (shift_entry tid p v a) \<le> column_sort_key (shift_entry tid p v b)"
      using aa ab ua ub
      by (auto simp: column_sort_key_def is_active_of_def shift_entry_def less_eq_prod_def)
  qed
  then show ?thesis by (simp add: sorted_map)
qed

lemma add_drop_restores:
  assumes add: "add_column env c tid col position = (Inr added, c1)"
    and drop: "drop_column env c1 tid (col_name col) = (Inr dropped, c2)"
    and range: "\<forall>e\<in>set (get_columns c tid). ordinal_position e < UINT32_MAX"
    and small: "length (get_columns c tid) \<le> UINT32_MAX"
  shows "map name_and_type (get_columns c2 tid) = map name_and_type (get_columns c tid)
     \<and> map ordinal_position (get_columns c2 tid) = [0..<length (get_columns c tid)]"
proof -
  let ?key = column_sort_key
  let ?act = "is_active_of tid"
  let ?named = "is_named tid (col_name col)"
  let ?all = "read_all_columns c"
  let ?A = "get_columns c tid"
  have all: "?all = sort_key ?key (columns_page c)"
    by (simp add: read_all_columns_def stable_sort_columns)
  have A: "?A = filter ?act ?all"
    by (simp add: get_columns_sort_key all filter_sort)
  have actA: "\<forall>e\<in>set ?A. ?act e" by (simp add: A)
  from add obtain ti p where
    nodup: "filter ?named ?all = []"
    and N: "added = \<lparr>table_id = tid,
              column_id = t_next_column_id (tables_cache (load_tables_cache c) ! ti),
              ordinal_position = p,
              schema_version = u32 (Suc (t_schema_version (tables_cache (load_tables_cache c) ! ti))),
              is_dropped = False,
              column = col\<lparr>col_id := t_next_column_id (tables_cache (load_tables_cache c) ! ti)\<rparr>\<rparr>"
    and page1: "columns_page c1 = stable_sort column_entry_less
        (map (shift_entry tid p (u32 (Suc (t_schema_version (tables_cache (load_tables_cache c) ! ti)))))
             ?all @ [added])"
    by (rule add_column_Inr)
  define sh where "sh = shift_entry tid p (u32 (Suc (t_schema_version (tables_cache (load_tables_cache c) ! ti))))"
  have Nnamed: "?named added" and Nact: "?act added"
    by (simp_all add: N is_named_def is_active_of_def)
  let ?P1 = "columns_page c1"
  have P1: "?P1 = sort_key ?key (map sh ?all @ [added])"
    using page1 by (simp add: stable_sort_columns sh_def)
  have sortedP1: "sorted (map ?key ?P1)" by (simp add: P1)
  have all1: "read_all_columns c1 = ?P1"
    by (simp add: read_all_columns_def stable_sort_columns P1 sort_key_idem)
  have namedP1: "filter ?named ?P1 = [added]"
  proof -
    have "filter ?named (map sh ?all) = map sh (filter ?named ?all)"
      by (rule filter_map_pres) (simp add: sh_def)
    then show ?thesis using nodup Nnamed by (simp add: P1 filter_sort)
  qed
  from find_target_unique [OF namedP1, of 0 None] obtain t where
    ft: "find_target tid (col_name col) ?P1 0 None = Some t" and tlen: "t < length ?P1"
    and tN: "?P1 ! t = added"
    and before: "filter ?named (take t ?P1) = []" and after: "filter ?named (drop (Suc t) ?P1) = []"
    by auto
  from drop obtain ti' t' where
    ft': "find_target tid (col_name col) (read_all_columns c1) 0 None = Some t'"
    and page2: "columns_page c2 = stable_sort column_entry_less
        (renumber tid t' 0 0
           (map (set_version tid (u32 (Suc (t_schema_version (tables_cache (load_tables_cache c1) ! ti')))))
              ((read_all_columns c1)[t' := (read_all_columns c1 ! t')\<lparr>
                   is_dropped := True,
                   schema_version := u32 (Suc (t_schema_version (tables_cache (load_tables_cache c1) ! ti'))),
                   ordinal_position := UINT32_MAX\<rparr>])))"
    by (rule drop_column_Inr)
  have tt: "t' = t" using ft ft' all1 by simp
  define sv where "sv = set_version tid (u32 (Suc (t_schema_version (tables_cache (load_tables_cache c1) ! ti'))))"
  define D where "D = added\<lparr>is_dropped := True,
       schema_version := u32 (Suc (t_schema_version (tables_cache (load_tables_cache c1) ! ti'))),
       ordinal_position := UINT32_MAX\<rparr>"
  define Y where "Y = map sv (?P1[t := D])"
  have P2: "columns_page c2 = sort_key ?key (renumber tid t 0 0 Y)"
    using page2 by (simp add: stable_sort_columns all1 tt tN Y_def sv_def D_def)
  have Dna: "\<not> ?act D" by (simp add: D_def is_active_of_def)
  have Yt: "\<not> ?act (Y ! t)" using tlen Dna by (simp add: Y_def sv_def)
  have Ylen: "length Y = length ?P1" by (simp add: Y_def)
  have ren: "filter ?act (renumber tid t 0 0 Y) = renum_list 0 (filter ?act Y)"
    by (rule renumber_filter) (use Yt in simp)
  have split: "?P1 = take t ?P1 @ added # drop (Suc t) ?P1"
    using tlen tN by (metis id_take_nth_drop)
  have upd: "?P1[t := D] = take t ?P1 @ D # drop (Suc t) ?P1"
    using tlen by (rule upd_conv_take_nth_drop)
  have nn_id: "\<And>xs. filter ?named xs = [] \<Longrightarrow> filter (\<lambda>e. \<not> ?named e) (filter ?act xs) = filter ?act xs"
    by (auto simp: filter_empty_conv intro: filter_cong)
  have "filter ?act (?P1[t := D]) = filter ?act (take t ?P1) @ filter ?act (drop (Suc t) ?P1)"
    by (subst upd) (simp add: Dna)
  also have "\<dots> = filter (\<lambda>e. \<not> ?named e) (filter ?act (take t ?P1))
                 @ filter (\<lambda>e. \<not> ?named e) (filter ?act (drop (Suc t) ?P1))"
    using nn_id [OF before] nn_id [OF after] by simp
  also have "\<dots> = filter (\<lambda>e. \<not> ?named e) (filter ?act ?P1)"
    by (subst (3) split) (simp add: Nnamed)
  finally have fa: "filter ?act (?P1[t := D]) = filter (\<lambda>e. \<not> ?named e) (filter ?act ?P1)" .
  have sortedA: "sorted (map ?key ?A)"
    by (simp add: get_columns_sort_key)
  have shA_sorted: "sorted (map ?key (map sh ?A))"
    unfolding sh_def by (rule shift_sorted [OF actA sortedA range])
  have nnA: "filter (\<lambda>e. \<not> ?named e) ?A = ?A"
    unfolding A by (rule nn_id [OF nodup])
  have "filter (\<lambda>e. \<not> ?named e) (filter ?act ?P1)
      = sort_key ?key (filter (\<lambda>e. \<not> ?named e) (filter ?act (map sh ?all @ [added])))"
    by (simp add: P1 filter_sort)
  also have "filter ?act (map sh ?all @ [added]) = map sh ?A @ [added]"
  proof -
    have "filter ?act (map sh ?all) = map sh (filter ?act ?all)"
      by (rule filter_map_pres) (simp add: sh_def)
    then show ?thesis using Nact by (simp add: A)
  qed
  also have "filter (\<lambda>e. \<not> ?named e) (map sh ?A @ [added]) = map sh ?A"
  proof -
    have "filter (\<lambda>e. \<not> ?named e) (map sh ?A) = map sh (filter (\<lambda>e. \<not> ?named e) ?A)"
      by (rule filter_map_pres) (simp add: sh_def)
    then show ?thesis using Nnamed nnA by simp
  qed
  also have "sort_key ?key (map sh ?A) = map sh ?A"
    using shA_sorted by (rule sort_key_id_if_sorted)
  finally have fa2: "filter ?act (?P1[t := D]) = map sh ?A" using fa by simp
  have fY: "filter ?act Y = map sv (map sh ?A)"
  proof -
    have "filter ?act (map sv (?P1[t := D])) = map sv (filter ?act (?P1[t := D]))"
      by (rule filter_map_pres) (simp add: sv_def)
    then show ?thesis by (simp add: Y_def fa2)
  qed
  define R where "R = renum_list 0 (map sv (map sh ?A))"
  have lenR: "length R = length ?A"
  proof -
    have "\<And>k L. length (renum_list k L) = length L"
    proof -
      fix k L show "length (renum_list k L) = length L"
        by (induction L arbitrary: k) simp_all
    qed
    then show ?thesis by (simp add: R_def)
  qed
  have ordR: "map ordinal_position R = [0..<length ?A]"
    using renum_list_ordinals [of 0 "map sv (map sh ?A)"] small by (simp add: R_def)
  have actR: "\<forall>e\<in>set R. ?act e"
    unfolding R_def by (rule renum_list_active) (use actA in \<open>simp add: sv_def sh_def\<close>)
  have sortedR: "sorted (map ?key R)"
  proof (rule sorted_key_by_ordinal [OF actR])
    show "sorted_wrt (<) (map ordinal_position R)"
      unfolding ordR by (simp add: sorted_wrt_upt)
  qed
  have "get_columns c2 tid = sort_key ?key (filter ?act (columns_page c2))"
    by (rule get_columns_sort_key)
  also have "\<dots> = sort_key ?key (filter ?act (renumber tid t 0 0 Y))"
    by (simp add: P2 filter_sort sort_key_idem)
  also have "\<dots> = sort_key ?key R" by (simp add: ren fY R_def)
  also have "\<dots> = R" using sortedR by (rule sort_key_id_if_sorted)
  finally have g2: "get_columns c2 tid = R" .
  have nt: "name_and_type = (\<lambda>e. (col_name (column e), col_type (column e)))"
    by (intro ext) (simp add: name_and_type_def)
  have names: "map name_and_type R = map name_and_type ?A"
    unfolding nt by (simp add: R_def renum_list_names sv_def sh_def o_def)
  show ?thesis
    unfolding g2 using names ordR by simp
qed


text \<open>
  Claim C7. If \<open>add_column\<close> of a column and then \<open>drop_column\<close> of its name both
  succeed, the active column list of the table is the original one again: the same names
  and types in the same order, with the dense ordinal positions 0, 1, 2, ... Every
  successful \<open>add_column\<close> and every successful \<open>drop_column\<close> increases the schema
  version of the table by one. The 32-bit fields are taken within their range: the ordinal
  positions of the active columns, their number and the schema version are below
  \<open>2^32 - 1\<close>.
\<close>

theorem add_drop_column_restores:
  "(add_column env c tid col position = (Inr added, c1)
      \<and> drop_column env c1 tid (col_name col) = (Inr dropped, c2)
      \<and> (\<forall>e\<in>set (get_columns c tid). ordinal_position e < UINT32_MAX)
      \<and> length (get_columns c tid) \<le> UINT32_MAX
    \<longrightarrow> map name_and_type (get_columns c2 tid) = map name_and_type (get_columns c tid)
        \<and> map ordinal_position (get_columns c2 tid) = [0..<length (get_columns c tid)])
   \<and> (add_column env c tid col position = (Inr added, c1)
        \<and> table_schema_version c tid = Some v \<and> v < UINT32_MAX
      \<longrightarrow> table_schema_version c1 tid = Some (Suc v))
   \<and> (drop_column env c' tid nm = (Inr dropped', c'')
        \<and> table_schema_version c' tid = Some v' \<and> v' < UINT32_MAX
      \<longrightarrow> table_schema_version c'' tid = Some (Suc v'))"
proof (intro conjI impI)
  assume h: "add_column env c tid col position = (Inr added, c1)
      \<and> drop_column env c1 tid (col_name col) = (Inr dropped, c2)
      \<and> (\<forall>e\<in>set (get_columns c tid). ordinal_position e < UINT32_MAX)
      \<and> length (get_columns c tid) \<le> UINT32_MAX"
  then show "map name_and_type (get_columns c2 tid) = map name_and_type (get_columns c tid)"
    using add_drop_restores [of env c tid col position added c1 dropped c2] by simp
  from h show "map ordinal_position (get_columns c2 tid) = [0..<length (get_columns c tid)]"
    using add_drop_restores [of env c tid col position added c1 dropped c2] by simp
next
  assume "add_column env c tid col position = (Inr added, c1)
        \<and> table_schema_version c tid = Some v \<and> v < UINT32_MAX"
  then show "table_schema_version c1 tid = Some (Suc v)"
    using add_column_version [of env c tid col position added c1 v] by simp
next
  assume "drop_column env c' tid nm = (Inr dropped', c'')
        \<and> table_schema_version c' tid = Some v' \<and> v' < UINT32_MAX"
  then show "table_schema_version c'' tid = Some (Suc v')"
    using drop_column_version [of env c' tid nm dropped' c'' v'] by simp
qed

lemmas catalog_ev = table_schema_version_def get_table_by_id_def load_tables_cache_def
  sample_catalog_def sample_table_def sample_columns_def sample_env_def nick_column_def
  add_column_def drop_column_def read_all_columns_def read_all_columns_of_def get_columns_def
  column_entry_less_def is_named_def is_active_of_def shift_entry_def set_version_def u32_def
  UINT32_MAX_def rewrite_columns_page_def rewrite_tables_page_def visible_def name_and_type_def
  Let_def upt_conv_Cons

text \<open>
  \<open>ALTER TABLE t ADD COLUMN nick VARCHAR(16)\<close> then \<open>ALTER TABLE t DROP COLUMN nick\<close> on
  the sample catalog: the table is back to (id, name) at the ordinal positions 0 and 1,
  and its schema version went from 1 to 2 to 3.
\<close>

theorem add_drop_column_restores_witness:
  "map visible (get_columns sample_catalog 1) = [(''id'', INTEGER, 0), (''name'', VARCHAR, 1)]
   \<and> map visible (get_columns (snd (add_column sample_env sample_catalog 1 nick_column None)) 1)
     = [(''id'', INTEGER, 0), (''name'', VARCHAR, 1), (''nick'', VARCHAR, 2)]
   \<and> map name_and_type (get_columns
      (snd (drop_column sample_env (snd (add_column sample_env sample_catalog 1 nick_column None)) 1 ''nick'')) 1)
     = [(''id'', INTEGER), (''name'', VARCHAR)]
   \<and> map ordinal_position (get_columns
      (snd (drop_column sample_env (snd (add_column sample_env sample_catalog 1 nick_column None)) 1 ''nick'')) 1)
     = [0, 1]
   \<and> table_schema_version sample_catalog 1 = Some 1
   \<and> table_schema_version (snd (add_column sample_env sample_catalog 1 nick_column None)) 1 = Some 2
   \<and> table_schema_version
        (snd (drop_column sample_env (snd (add_column sample_env sample_catalog 1 nick_column None)) 1 ''nick'')) 1
     = Some 3"
proof -
  let ?r1 = "add_column sample_env sample_catalog 1 nick_column None"
  let ?r2 = "drop_column sample_env (snd ?r1) 1 ''nick''"
  have a: "?r1 = (Inr (projr (fst ?r1)), snd ?r1)"
    by (simp add: catalog_ev)
  have d: "?r2 = (Inr (projr (fst ?r2)), snd ?r2)"
    by (simp add: catalog_ev)
  have g0: "map visible (get_columns sample_catalog 1) = [(''id'', INTEGER, 0), (''name'', VARCHAR, 1)]"
    by (simp add: catalog_ev)
  have n0: "map name_and_type (get_columns sample_catalog 1) = [(''id'', INTEGER), (''name'', VARCHAR)]"
    by (simp add: catalog_ev)
  have g1: "map visible (get_columns (snd ?r1) 1)
      = [(''id'', INTEGER, 0), (''name'', VARCHAR, 1), (''nick'', VARCHAR, 2)]"
    by (simp add: catalog_ev)
  have range: "\<forall>e\<in>set (get_columns sample_catalog 1). ordinal_position e < UINT32_MAX"
    by (simp add: catalog_ev)
  have small: "length (get_columns sample_catalog 1) \<le> UINT32_MAX"
    by (simp add: catalog_ev)
  have len: "length (get_columns sample_catalog 1) = 2"
    by (simp add: catalog_ev)
  have v0: "table_schema_version sample_catalog 1 = Some 1"
    by (simp add: catalog_ev)
  have b1: "(1::nat) < UINT32_MAX" and b2: "Suc 1 < UINT32_MAX" by (simp_all add: UINT32_MAX_def)
  note thm1 = add_drop_column_restores [of sample_env sample_catalog 1 nick_column None
      "projr (fst ?r1)" "snd ?r1" "projr (fst ?r2)" "snd ?r2" 1 "snd ?r1" "''nick''" "projr (fst ?r2)" "snd ?r2" "Suc 1"]
  have v1: "table_schema_version (snd ?r1) 1 = Some (Suc 1)"
    using thm1 a v0 b1 by blast
  have v2: "table_schema_version (snd ?r2) 1 = Some (Suc (Suc 1))"
    using thm1 d v1 b2 by blast
  have nm: "col_name nick_column = ''nick''" by (simp add: nick_column_def)
  have res: "map name_and_type (get_columns (snd ?r2) 1) = map name_and_type (get_columns sample_catalog 1)
      \<and> map ordinal_position (get_columns (snd ?r2) 1) = [0..<length (get_columns sample_catalog 1)]"
    using thm1 [THEN conjunct1] a d range small unfolding nm by blast
  show ?thesis
    using res g0 g1 n0 len v0 v1 v2 by (simp add: numeral_3_eq_3 numeral_2_eq_2 upt_conv_Cons)
qed

subsection \<open>Evaluating the tree operations\<close>

lemmas ev = Serialize_def key_count_def Let_def size_sub_def u16_def le_bytes_def MakeLeaf_def
  MakeInternal_def sample_config_def small_config_def INVALID_PAGE_ID_def to_key_def upt_conv_Cons

lemmas fuel_unfold =
  InsertRecursive.simps(2)[of "pred_numeral n" for n, folded numeral_eq_Suc]
  FindLeafPosition.simps(2)[of "pred_numeral n" for n, folded numeral_eq_Suc]
  FindLeftmostLeaf.simps(2)[of "pred_numeral n" for n, folded numeral_eq_Suc]
  ScanRange_loop.simps(2)[of "pred_numeral n" for n, folded numeral_eq_Suc]

lemmas tree_ev = scan_equal_after_def scan_range_after_def empty_tree_def BPlusTree_new_def
  new_page_def StoreNode_def stored_form_def Insert_def fuel_unfold LoadNode_def
  insert_into_leaf_def FindLeafIndex_def CompareKeys_def ScanEqual_def ScanRange_def
  insert_into_internal_def SplitLeaf_def SplitInternal_def child_at_def FindInternalChild_def

subsection \<open>\<open>ScanRange\<close> on a well-formed tree\<close>

lemma memcmp_take:
  "memcmp (take (min (length a) (length b)) a) (take (min (length a) (length b)) b) = memcmp a b"
proof (induction a b rule: memcmp.induct)
  case (1 ys)
  show ?case by simp
next
  case (2 x xs)
  show ?case by simp
next
  case (3 x xs y ys)
  then show ?case by simp
qed

lemma memcmp_refl [simp]: "memcmp xs xs = 0"
  by (induction xs) auto

lemma CompareKeys_memcmp:
  "CompareKeys a b =
     (if memcmp a b \<noteq> 0 then memcmp a b
      else if length a < length b then - 1 else if length a > length b then 1 else 0)"
proof (cases "min (length a) (length b) > 0")
  case True
  then show ?thesis
    unfolding CompareKeys_def Let_def memcmp_take by simp
next
  case False
  then show ?thesis
    by (cases a; cases b) (auto simp: CompareKeys_def)
qed

lemma CompareKeys_order:
  "CompareKeys a b = (if a < b then - 1 else if a = b then 0 else 1)"
proof (induction a b rule: memcmp.induct)
  case (1 ys)
  show ?case by (cases ys) (simp_all add: CompareKeys_memcmp)
next
  case (2 x xs)
  show ?case by (simp add: CompareKeys_memcmp)
next
  case (3 x xs y ys)
  show ?case
  proof (cases "x = y")
    case True
    have ih: "CompareKeys xs ys = (if xs < ys then - 1 else if xs = ys then 0 else 1)"
      using 3 True by simp
    have "CompareKeys (x # xs) (y # ys) = CompareKeys xs ys"
      using True by (simp add: CompareKeys_memcmp)
    with ih True show ?thesis by simp
  next
    case False
    then show ?thesis by (auto simp: CompareKeys_memcmp)
  qed
qed

lemma CompareKeys_less [simp]: "CompareKeys a b < 0 \<longleftrightarrow> a < b"
  by (simp add: CompareKeys_order)

lemma CompareKeys_le [simp]: "CompareKeys a b \<le> 0 \<longleftrightarrow> a \<le> b"
  by (auto simp: CompareKeys_order)

lemma CompareKeys_eq [simp]: "CompareKeys a b = 0 \<longleftrightarrow> a = b"
  by (simp add: CompareKeys_order)

lemma CompareKeys_greater [simp]: "CompareKeys a b > 0 \<longleftrightarrow> b < a"
  by (auto simp: CompareKeys_order)

lemma prefix_sorts_first: "b \<noteq> [] \<Longrightarrow> a < a @ (b :: key_t)"
  by (induction a) (auto simp: neq_Nil_conv)

lemma entries_of_simps [simp]:
  "entries_of pages [] = []"
  "entries_of pages (l # ls) = (case pages l of None \<Rightarrow> [] | Some n \<Rightarrow> leaf_entries n) @ entries_of pages ls"
  "entries_of pages (xs @ ys) = entries_of pages xs @ entries_of pages ys"
  by (simp_all add: entries_of_def)

lemma entries_of_concat:
  "entries_of pages (concat xss) = concat (map (entries_of pages) xss)"
  by (induction xss) simp_all

lemma bound_le_trans: "bound_le lo (Some s) \<Longrightarrow> bound_le (Some s) hi \<Longrightarrow> bound_le lo hi"
  by (auto simp: bound_le_def split: option.splits)

lemma wf_children_bound_le: "wf_children P lo cs ss hi \<Longrightarrow> bound_le lo hi"
  by (induction P lo cs ss hi rule: wf_children.induct) (auto intro: bound_le_trans)

lemma within_left: "within lo (Some s) x \<Longrightarrow> bound_le (Some s) hi \<Longrightarrow> within lo hi x"
  by (cases hi) (auto simp: within_def bound_le_def)

lemma within_right: "within (Some s) hi y \<Longrightarrow> bound_le lo (Some s) \<Longrightarrow> within lo hi y"
  by (cases lo) (auto simp: within_def bound_le_def)

text \<open>Keys of a subtree: sorted, and within the bounds of the subtree.\<close>

lemma wf_children_keys:
  "wf_children P lo cs ss hi \<Longrightarrow>
     (\<And>c lo hi. P c lo hi \<Longrightarrow>
        sorted_wrt (<) (map fst (E c)) \<and> list_all (within lo hi) (map fst (E c))) \<Longrightarrow>
     sorted_wrt (<) (map fst (concat (map E cs))) \<and> list_all (within lo hi) (map fst (concat (map E cs)))"
proof (induction P lo cs ss hi rule: wf_children.induct)
  case (1 P lo ss hi)
  then show ?case by simp
next
  case (2 P lo c ss hi)
  from "2.prems"(1) have "P c lo hi" by simp
  from "2.prems"(2) [OF this] show ?case by simp
next
  case (3 P lo c c' cs hi)
  then show ?case by simp
next
  case (4 P lo c c' cs s ss hi)
  note IH = "4.prems"(2)
  from "4.prems"(1) have c: "P c lo (Some s)" and le: "bound_le lo (Some s)"
    and rest: "wf_children P (Some s) (c' # cs) ss hi" by simp_all
  from IH [OF c] have sc: "sorted_wrt (<) (map fst (E c))" and wc: "list_all (within lo (Some s)) (map fst (E c))"
    by simp_all
  from "4.IH" [OF rest IH] have sr: "sorted_wrt (<) (map fst (concat (map E (c' # cs))))"
    and wr: "list_all (within (Some s) hi) (map fst (concat (map E (c' # cs))))" by simp_all
  have le2: "bound_le (Some s) hi" by (rule wf_children_bound_le [OF rest])
  have lt: "\<forall>x\<in>set (map fst (E c)). \<forall>y\<in>set (map fst (concat (map E (c' # cs)))). x < y"
  proof (intro ballI)
    fix x y assume "x \<in> set (map fst (E c))" "y \<in> set (map fst (concat (map E (c' # cs))))"
    with wc wr have "x < s" "s \<le> y" by (auto simp: list_all_iff within_def)
    then show "x < y" by simp
  qed
  have w1: "list_all (within lo hi) (map fst (E c))"
    using wc within_left [OF _ le2] unfolding list_all_iff by blast
  have w2: "list_all (within lo hi) (map fst (concat (map E (c' # cs))))"
    using wr within_right [OF _ le] unfolding list_all_iff by blast
  have "map fst (concat (map E (c # c' # cs))) = map fst (E c) @ map fst (concat (map E (c' # cs)))"
    by simp
  then show ?case
    using sc sr lt w1 w2 by (simp only: sorted_wrt_append list_all_append)
qed

lemma wf_tree_keys:
  "wf_tree h pages pid lo hi \<Longrightarrow>
     sorted_wrt (<) (map fst (entries_of pages (leaves h pages pid)))
     \<and> list_all (within lo hi) (map fst (entries_of pages (leaves h pages pid)))"
proof (induction h arbitrary: pid lo hi)
  case 0
  then show ?case by (auto split: option.splits)
next
  case (Suc h)
  from Suc.prems obtain n where n: "pages pid = Some n"
    and wc: "wf_children (wf_tree h pages) lo (children n) (map fst (internal_entries n)) hi"
    by (auto split: option.splits)
  have "sorted_wrt (<) (map fst (concat (map (\<lambda>c. entries_of pages (leaves h pages c)) (children n))))
     \<and> list_all (within lo hi) (map fst (concat (map (\<lambda>c. entries_of pages (leaves h pages c)) (children n))))"
    by (rule wf_children_keys [OF wc]) (rule Suc.IH)
  then show ?case
    using n by (simp add: entries_of_concat comp_def)
qed

lemma upper_ok_mono: "\<not> upper_ok hi hi_i x \<Longrightarrow> x < y \<Longrightarrow> \<not> upper_ok hi hi_i y"
  by (auto simp: upper_ok_def split: option.splits if_splits)

lemma lower_ok_mono: "\<not> lower_ok lo li y \<Longrightarrow> x \<le> y \<Longrightarrow> \<not> lower_ok lo li x"
  by (auto simp: lower_ok_def split: option.splits if_splits)

lemma scan_entries_sorted:
  "sorted_wrt (<) (map fst es) \<Longrightarrow>
     scan_entries lo li hi hi_i es acc
       = (acc @ map snd (filter (\<lambda>e. in_bounds lo li hi hi_i (fst e)) es),
          \<exists>e\<in>set es. lower_ok lo li (fst e) \<and> \<not> upper_ok hi hi_i (fst e))"
proof (induction es arbitrary: acc)
  case Nil
  show ?case by simp
next
  case (Cons e es)
  from Cons.prems have sorted: "sorted_wrt (<) (map fst es)" and gt: "\<forall>x\<in>set es. fst e < fst x"
    by auto
  note IH = Cons.IH [OF sorted]
  have lo_eq: "(case lo of Some lk \<Rightarrow> (let cmp = CompareKeys (fst e) lk in cmp < 0 \<or> (cmp = 0 \<and> \<not> li))
          | None \<Rightarrow> False) = (\<not> lower_ok lo li (fst e))"
    by (auto simp: lower_ok_def Let_def split: option.splits)
  have hi_eq: "(case hi of Some uk \<Rightarrow> (let cmp = CompareKeys (fst e) uk in cmp > 0 \<or> (cmp = 0 \<and> \<not> hi_i))
          | None \<Rightarrow> False) = (\<not> upper_ok hi hi_i (fst e))"
    by (auto simp: upper_ok_def Let_def split: option.splits)
  show ?case
  proof (cases "lower_ok lo li (fst e)")
    case False
    then show ?thesis
      unfolding scan_entries.simps lo_eq using IH by (auto simp: in_bounds_def)
  next
    case True
    note lo = this
    show ?thesis
    proof (cases "upper_ok hi hi_i (fst e)")
      case False
      with gt have "\<forall>x\<in>set es. \<not> upper_ok hi hi_i (fst x)"
        using upper_ok_mono [of hi hi_i "fst e"] by blast
      then have "filter (\<lambda>e. in_bounds lo li hi hi_i (fst e)) es = []"
        by (auto simp: in_bounds_def filter_empty_conv)
      with lo False show ?thesis
        unfolding scan_entries.simps lo_eq hi_eq by (auto simp: in_bounds_def)
    next
      case True
      with lo show ?thesis
        unfolding scan_entries.simps lo_eq hi_eq using IH by (auto simp: in_bounds_def)
    qed
  qed
qed


lemma scan_entries_append:
  "scan_entries lo li hi hi_i (xs @ ys) r =
     (case scan_entries lo li hi hi_i xs r of
        (r', True) \<Rightarrow> (r', True)
      | (r', False) \<Rightarrow> scan_entries lo li hi hi_i ys r')"
  by (induction xs arbitrary: r) (simp_all split: prod.splits bool.splits)

lemma scan_entries_skip:
  "\<forall>e\<in>set xs. fst e < lk \<Longrightarrow>
     scan_entries (Some lk) li hi hi_i (xs @ ys) r = scan_entries (Some lk) li hi hi_i ys r"
  by (induction xs) (simp_all add: Let_def)

lemma chain_ok_append: "chain_ok pages (xs @ ys) \<Longrightarrow> chain_ok pages ys"
  by (induction xs) (auto split: option.splits)

lemma ScanRange_loop_chain:
  "chain_ok (tree_pages t) (l # ls) \<Longrightarrow> length (l # ls) < fuel \<Longrightarrow> tree_pages t l = Some n \<Longrightarrow>
     ScanRange_loop fuel t lo li hi hi_i l start r
       = Some (Inr (fst (scan_entries lo li hi hi_i
                           (drop start (leaf_entries n) @ entries_of (tree_pages t) ls) r)))"
proof (induction ls arbitrary: l fuel n start r)
  case Nil
  then obtain f where f: "fuel = Suc (Suc f)" by (cases fuel; cases "fuel - 1") auto
  from Nil have l: "l \<noteq> INVALID_PAGE_ID" and nx: "next_leaf n = INVALID_PAGE_ID" by auto
  show ?case
    using Nil.prems(3) l nx unfolding f
    by (auto simp: LoadNode_def split: prod.splits bool.splits)
next
  case (Cons l' ls)
  then obtain f where f: "fuel = Suc f" by (cases fuel) auto
  from Cons.prems have l: "l \<noteq> INVALID_PAGE_ID" and nx: "next_leaf n = l'"
    and ch: "chain_ok (tree_pages t) (l' # ls)" by auto
  from ch obtain n' where n': "tree_pages t l' = Some n'" by (auto split: option.splits)
  from Cons.prems f have len: "length (l' # ls) < f" by simp
  note IH = Cons.IH [OF ch len n', where start = 0]
  have ent: "entries_of (tree_pages t) (l' # ls) = leaf_entries n' @ entries_of (tree_pages t) ls"
    using n' by simp
  show ?case
  proof (cases "leaf_entries n = [] \<or> start \<ge> length (leaf_entries n)")
    case True
    then have "drop start (leaf_entries n) = []" by auto
    then show ?thesis
      using True Cons.prems(3) l nx IH unfolding f ent
      by (simp add: LoadNode_def)
  next
    case False
    show ?thesis
      using False Cons.prems(3) l nx IH unfolding f ent
      by (simp add: LoadNode_def scan_entries_append [of lo li hi hi_i "drop start (leaf_entries n)"]
            split: prod.splits bool.splits)
  qed
qed

lemma takeWhile_map_length:
  "length (takeWhile P (map f xs)) = length (takeWhile (\<lambda>x. P (f x)) xs)"
  by (induction xs) auto

lemma wf_children_descend:
  "wf_children P lo cs ss hi \<Longrightarrow>
     (\<And>c lo hi. P c lo hi \<Longrightarrow> list_all (within lo hi) (map fst (E c))) \<Longrightarrow>
     length (takeWhile (\<lambda>s. s \<le> k) ss) < length cs
     \<and> (\<exists>lo' hi'. P (cs ! length (takeWhile (\<lambda>s. s \<le> k) ss)) lo' hi')
     \<and> (\<forall>e\<in>set (concat (map E (take (length (takeWhile (\<lambda>s. s \<le> k) ss)) cs))). fst e < k)"
proof (induction P lo cs ss hi rule: wf_children.induct)
  case (1 P lo ss hi)
  then show ?case by simp
next
  case (2 P lo c ss hi)
  then show ?case by auto
next
  case (3 P lo c c' cs hi)
  then show ?case by simp
next
  case (4 P lo c c' cs s ss hi)
  note E = "4.prems"(2)
  from "4.prems"(1) have c: "P c lo (Some s)"
    and rest: "wf_children P (Some s) (c' # cs) ss hi" by simp_all
  show ?case
  proof (cases "s \<le> k")
    case True
    from E [OF c] have "\<forall>e\<in>set (E c). fst e < s"
      by (auto simp: list_all_iff within_def)
    with True have lt: "\<forall>e\<in>set (E c). fst e < k" by auto
    from "4.IH" [OF rest E] True lt show ?thesis by auto
  next
    case False
    with c show ?thesis by auto
  qed
qed

lemma wf_tree_within:
  "wf_tree h pages c lo hi \<Longrightarrow> list_all (within lo hi) (map fst (entries_of pages (leaves h pages c)))"
  using wf_tree_keys by blast

lemma FindLeafPosition_wf:
  "wf_tree h (tree_pages t) pid lo hi \<Longrightarrow> h < fuel \<Longrightarrow>
     \<exists>l pre post n.
       FindLeafPosition fuel t pid k = Some (Inr (l, FindLeafIndex n k))
       \<and> tree_pages t l = Some n
       \<and> leaves h (tree_pages t) pid = pre @ l # post
       \<and> (\<forall>e\<in>set (entries_of (tree_pages t) pre). fst e < k)"
proof (induction h arbitrary: pid lo hi fuel)
  case 0
  then obtain f where f: "fuel = Suc f" by (cases fuel) auto
  from "0.prems"(1) obtain n where n: "tree_pages t pid = Some n" and leaf: "node_type n = LEAF"
    by (auto split: option.splits)
  show ?case
    unfolding f using n leaf
    by (intro exI [of _ pid] exI [of _ "[]"] exI [of _ n]) (simp add: LoadNode_def)
next
  case (Suc h)
  then obtain f where f: "fuel = Suc f" and hf: "h < f" by (cases fuel) auto
  let ?pages = "tree_pages t"
  from Suc.prems(1) obtain n where n: "?pages pid = Some n" and int: "node_type n = INTERNAL"
    and wc: "wf_children (wf_tree h ?pages) lo (children n) (map fst (internal_entries n)) hi"
    by (auto split: option.splits)
  let ?i = "length (takeWhile (\<lambda>s. s \<le> k) (map fst (internal_entries n)))"
  have fic: "FindInternalChild n k = ?i"
    by (simp add: FindInternalChild_def takeWhile_map_length)
  from wf_children_descend [OF wc, of "\<lambda>c. entries_of ?pages (leaves h ?pages c)" k, OF wf_tree_within]
  have i: "?i < length (children n)"
    and sub: "\<exists>lo' hi'. wf_tree h ?pages (children n ! ?i) lo' hi'"
    and lt: "\<forall>e\<in>set (concat (map (\<lambda>c. entries_of ?pages (leaves h ?pages c)) (take ?i (children n)))). fst e < k"
    by blast+
  from sub obtain lo' hi' where "wf_tree h ?pages (children n ! ?i) lo' hi'" by blast
  from Suc.IH [OF this hf] obtain l pre post m where
    flp: "FindLeafPosition f t (children n ! ?i) k = Some (Inr (l, FindLeafIndex m k))"
    and m: "?pages l = Some m"
    and lv: "leaves h ?pages (children n ! ?i) = pre @ l # post"
    and pre: "\<forall>e\<in>set (entries_of ?pages pre). fst e < k"
    by blast
  have split: "children n = take ?i (children n) @ (children n ! ?i) # drop (Suc ?i) (children n)"
    using i by (simp add: id_take_nth_drop)
  have "leaves (Suc h) ?pages pid = concat (map (leaves h ?pages) (children n))"
    using n by simp
  also have "\<dots> = concat (map (leaves h ?pages) (take ?i (children n)))
      @ leaves h ?pages (children n ! ?i)
      @ concat (map (leaves h ?pages) (drop (Suc ?i) (children n)))"
    by (subst split) simp
  finally have lvs: "leaves (Suc h) ?pages pid
      = (concat (map (leaves h ?pages) (take ?i (children n))) @ pre) @ l
        # (post @ concat (map (leaves h ?pages) (drop (Suc ?i) (children n))))"
    using lv by simp
  have pre2: "\<forall>e\<in>set (entries_of ?pages (concat (map (leaves h ?pages) (take ?i (children n))) @ pre)). fst e < k"
    using lt pre by (auto simp: entries_of_concat comp_def)
  have run: "FindLeafPosition fuel t pid k = Some (Inr (l, FindLeafIndex m k))"
    unfolding f using n int i flp fic
    by (simp add: LoadNode_def child_at_def Let_def)
  from run m lvs pre2 show ?case by blast
qed

lemma wf_children_first:
  "wf_children P lo cs ss hi \<Longrightarrow> cs \<noteq> [] \<and> (\<exists>lo' hi'. P (hd cs) lo' hi')"
  by (induction P lo cs ss hi rule: wf_children.induct) auto

lemma FindLeftmostLeaf_wf:
  "wf_tree h (tree_pages t) pid lo hi \<Longrightarrow> h < fuel \<Longrightarrow>
     \<exists>l post n. FindLeftmostLeaf fuel t pid = Some (Inr l) \<and> tree_pages t l = Some n
       \<and> leaves h (tree_pages t) pid = l # post"
proof (induction h arbitrary: pid lo hi fuel)
  case 0
  then obtain f where f: "fuel = Suc f" by (cases fuel) auto
  from "0.prems"(1) show ?case
    unfolding f by (auto simp: LoadNode_def split: option.splits)
next
  case (Suc h)
  then obtain f where f: "fuel = Suc f" and hf: "h < f" by (cases fuel) auto
  let ?pages = "tree_pages t"
  from Suc.prems(1) obtain n where n: "?pages pid = Some n" and int: "node_type n = INTERNAL"
    and wc: "wf_children (wf_tree h ?pages) lo (children n) (map fst (internal_entries n)) hi"
    by (auto split: option.splits)
  from wf_children_first [OF wc] obtain lo' hi' where ne: "children n \<noteq> []"
    and sub: "wf_tree h ?pages (hd (children n)) lo' hi'" by blast
  from Suc.IH [OF sub hf] obtain l post m where
    fl: "FindLeftmostLeaf f t (hd (children n)) = Some (Inr l)" and m: "?pages l = Some m"
    and lv: "leaves h ?pages (hd (children n)) = l # post" by blast
  from ne obtain c cs where cs: "children n = c # cs" by (cases "children n") auto
  have "FindLeftmostLeaf fuel t pid = Some (Inr l)"
    unfolding f using n int ne fl by (simp add: LoadNode_def)
  moreover have "leaves (Suc h) ?pages pid = l # (post @ concat (map (leaves h ?pages) cs))"
    using n cs lv by simp
  ultimately show ?case using m by blast
qed

lemma ScanRange_wf:
  assumes wf: "wf_tree h (tree_pages t) (root_page_id t) None None"
    and chain: "chain_ok (tree_pages t) (leaves h (tree_pages t) (root_page_id t))"
    and hf: "h < fuel"
    and lf: "length (leaves h (tree_pages t) (root_page_id t)) < fuel"
  shows "ScanRange fuel t lo li hi hi_i
     = Some (Inr (map snd (filter (\<lambda>e. in_bounds lo li hi hi_i (fst e))
                     (entries_of (tree_pages t) (leaves h (tree_pages t) (root_page_id t))))))"
proof -
  let ?pages = "tree_pages t"
  let ?L = "leaves h ?pages (root_page_id t)"
  from wf_tree_keys [OF wf] have sorted: "sorted_wrt (<) (map fst (entries_of ?pages ?L))" by simp
  have full: "fst (scan_entries lo li hi hi_i (entries_of ?pages ?L) [])
      = map snd (filter (\<lambda>e. in_bounds lo li hi hi_i (fst e)) (entries_of ?pages ?L))"
    by (simp add: scan_entries_sorted [OF sorted])
  show ?thesis
  proof (cases lo)
    case None
    from FindLeftmostLeaf_wf [OF wf hf] obtain l post n where
      fl: "FindLeftmostLeaf fuel t (root_page_id t) = Some (Inr l)" and n: "?pages l = Some n"
      and lv: "?L = l # post" by blast
    from chain lf lv have ch: "chain_ok ?pages (l # post)" and len: "length (l # post) < fuel" by simp_all
    have ent: "entries_of ?pages ?L = leaf_entries n @ entries_of ?pages post"
      using lv n by simp
    from ScanRange_loop_chain [OF ch len n, of lo li hi hi_i 0 "[]"]
    have "ScanRange fuel t lo li hi hi_i
        = Some (Inr (fst (scan_entries lo li hi hi_i (entries_of ?pages ?L) [])))"
      unfolding ScanRange_def using fl ent None by simp
    then show ?thesis by (simp only: full)
  next
    case (Some lk)
    from FindLeafPosition_wf [OF wf hf, of lk] obtain l pre post n where
      fl: "FindLeafPosition fuel t (root_page_id t) lk = Some (Inr (l, FindLeafIndex n lk))"
      and n: "?pages l = Some n" and lv: "?L = pre @ l # post"
      and pre: "\<forall>e\<in>set (entries_of ?pages pre). fst e < lk" by blast
    from chain lv have ch: "chain_ok ?pages (l # post)"
      using chain_ok_append [of ?pages pre "l # post"] by (simp del: chain_ok.simps)
    from lf lv have len: "length (l # post) < fuel" by simp
    let ?idx = "FindLeafIndex n lk"
    have tk: "take ?idx (leaf_entries n) = takeWhile (\<lambda>e. CompareKeys (fst e) lk < 0) (leaf_entries n)"
      unfolding FindLeafIndex_def by (rule takeWhile_eq_take [symmetric])
    have tk_lt: "\<forall>e\<in>set (take ?idx (leaf_entries n)). fst e < lk"
      unfolding tk by (auto dest: set_takeWhileD)
    have ent: "entries_of ?pages ?L
        = (entries_of ?pages pre @ take ?idx (leaf_entries n))
          @ (drop ?idx (leaf_entries n) @ entries_of ?pages post)"
      using lv n by simp
    have skip: "scan_entries lo li hi hi_i (entries_of ?pages ?L) []
        = scan_entries lo li hi hi_i (drop ?idx (leaf_entries n) @ entries_of ?pages post) []"
      unfolding ent Some using pre tk_lt
      by (intro scan_entries_skip) auto
    from ScanRange_loop_chain [OF ch len n, of lo li hi hi_i ?idx "[]"]
    have "ScanRange fuel t lo li hi hi_i
        = Some (Inr (fst (scan_entries lo li hi hi_i
                            (drop ?idx (leaf_entries n) @ entries_of ?pages post) [])))"
      unfolding ScanRange_def using fl Some by simp
    then show ?thesis by (simp only: skip [symmetric] full)
  qed
qed

text \<open>
  Claim C5. A stored tree is well formed at height \<open>h\<close> when every leaf is sorted by key,
  the keys of a subtree lie between the separators around it in its parent (\<open>wf_tree\<close>),
  and the leaves are linked left to right by \<open>next_leaf\<close> (\<open>chain_ok\<close>). For every well-formed
  tree, with fuel for its height and its leaves, \<open>ScanRange(lo, li, hi, hi_i)\<close> returns
  exactly the values of the entries whose key satisfies the lower bound (\<open>k \<ge> lo\<close> when
  \<open>li\<close>, \<open>k > lo\<close> when not) and the upper bound (\<open>k \<le> hi\<close> when \<open>hi_i\<close>, \<open>k < hi\<close> when
  not), an absent bound filtering nothing; they come in key order. The keys are ordered as
  byte strings: \<open>CompareKeys\<close> is the lexicographic order of the unsigned bytes, in which a
  key sorts before every longer key that it is a prefix of.
\<close>

theorem ScanRange_returns_entries_within_bounds:
  "(wf_tree h (tree_pages t) (root_page_id t) None None
      \<and> chain_ok (tree_pages t) (leaves h (tree_pages t) (root_page_id t))
      \<and> h < fuel \<and> length (leaves h (tree_pages t) (root_page_id t)) < fuel
    \<longrightarrow> ScanRange fuel t lo li hi hi_i
        = Some (Inr (map snd (filter (\<lambda>e. in_bounds lo li hi hi_i (fst e))
                       (entries_of (tree_pages t) (leaves h (tree_pages t) (root_page_id t)))))))
   \<and> (CompareKeys a b < 0) = (a < b)
   \<and> (CompareKeys a b = 0) = (a = b)
   \<and> (CompareKeys a b > 0) = (b < a)
   \<and> CompareKeys a (a @ c # cs) < 0
   \<and> (CompareKeys (x # xs) (y # ys) < 0) = (unat x < unat y \<or> x = y \<and> CompareKeys xs ys < 0)"
proof (intro conjI impI)
  assume "wf_tree h (tree_pages t) (root_page_id t) None None
      \<and> chain_ok (tree_pages t) (leaves h (tree_pages t) (root_page_id t))
      \<and> h < fuel \<and> length (leaves h (tree_pages t) (root_page_id t)) < fuel"
  then show "ScanRange fuel t lo li hi hi_i
        = Some (Inr (map snd (filter (\<lambda>e. in_bounds lo li hi hi_i (fst e))
                       (entries_of (tree_pages t) (leaves h (tree_pages t) (root_page_id t))))))"
    using ScanRange_wf [of h t fuel lo li hi hi_i] by blast
next
  show "CompareKeys a (a @ c # cs) < 0"
    using prefix_sorts_first [of "c # cs" a] by simp
next
  show "(CompareKeys (x # xs) (y # ys) < 0) = (unat x < unat y \<or> x = y \<and> CompareKeys xs ys < 0)"
    by (auto simp: word_less_nat_alt)
qed simp_all

lemma sample_tree_wf:
  "\<exists>t. inserts 3 small_config (empty_tree small_config False)
          [(to_key ''b'', 20), (to_key ''a'', 10), (to_key ''c'', 30), (to_key ''ab'', 15)] = Some (Inr (), t)
     \<and> wf_tree 1 (tree_pages t) (root_page_id t) None None
     \<and> leaves 1 (tree_pages t) (root_page_id t) = [2, 3]
     \<and> chain_ok (tree_pages t) [2, 3]
     \<and> entries_of (tree_pages t) [2, 3]
         = [(to_key ''a'', 10), (to_key ''ab'', 15), (to_key ''b'', 20), (to_key ''c'', 30)]"
  by (simp add: ev tree_ev within_def bound_le_def)

text \<open>
  The keys b, a, c, ab inserted into an empty tree whose nodes hold two keys: the root
  splits into the leaves (a, ab) and (b, c). The range \<open>a < k < c\<close> holds ab and b.
\<close>

theorem ScanRange_returns_entries_within_bounds_witness:
  "scan_range_after 3 small_config False
      [(to_key ''b'', 20), (to_key ''a'', 10), (to_key ''c'', 30), (to_key ''ab'', 15)]
      (Some (to_key ''a'')) False (Some (to_key ''c'')) False = Some (Inr [15, 20])
   \<and> scan_range_after 3 small_config False
      [(to_key ''b'', 20), (to_key ''a'', 10), (to_key ''c'', 30), (to_key ''ab'', 15)]
      None False (Some (to_key ''b'')) True = Some (Inr [10, 15, 20])
   \<and> CompareKeys (to_key ''a'') (to_key ''ab'') < 0"
proof -
  let ?kvs = "[(to_key ''b'', 20), (to_key ''a'', 10), (to_key ''c'', 30), (to_key ''ab'', 15)]"
  from sample_tree_wf obtain t where
    ins: "inserts 3 small_config (empty_tree small_config False) ?kvs = Some (Inr (), t)"
    and wf: "wf_tree 1 (tree_pages t) (root_page_id t) None None"
    and lv: "leaves 1 (tree_pages t) (root_page_id t) = [2, 3]"
    and ch: "chain_ok (tree_pages t) [2, 3]"
    and en: "entries_of (tree_pages t) [2, 3]
         = [(to_key ''a'', 10), (to_key ''ab'', 15), (to_key ''b'', 20), (to_key ''c'', 30)]"
    by blast
  have hyp: "wf_tree 1 (tree_pages t) (root_page_id t) None None
      \<and> chain_ok (tree_pages t) (leaves 1 (tree_pages t) (root_page_id t))
      \<and> 1 < (3::nat) \<and> length (leaves 1 (tree_pages t) (root_page_id t)) < 3"
    using wf lv ch by simp
  note inst = ScanRange_returns_entries_within_bounds [where h = "1" and t = "t" and fuel = "3",
      THEN conjunct1, rule_format, OF hyp, unfolded lv en]
  have r1: "ScanRange 3 t (Some (to_key ''a'')) False (Some (to_key ''c'')) False = Some (Inr [15, 20])"
    using inst [of "Some (to_key ''a'')" False "Some (to_key ''c'')" False]
    by (simp add: in_bounds_def lower_ok_def upper_ok_def to_key_def)
  have r2: "ScanRange 3 t None False (Some (to_key ''b'')) True = Some (Inr [10, 15, 20])"
    using inst [of None False "Some (to_key ''b'')" True]
    by (simp add: in_bounds_def lower_ok_def upper_ok_def to_key_def)
  have r3: "CompareKeys (to_key ''a'') (to_key ''ab'') < 0"
    using ScanRange_returns_entries_within_bounds [where a = "to_key ''a''" and c = "of_char CHR ''b''" and cs = "[]"]
    by (simp add: to_key_def)
  show ?thesis
    using ins r1 r2 r3 by (simp add: scan_range_after_def)
qed

subsection \<open>CREATE TABLE when the primary-key index cannot be created\<close>

lemmas ddl_ev = create_from_ast_def create_index_from_ast_def create_table_def create_index_def
  set_index_root_def drop_table_def CreateIndex_def MakeHandle_def map_column_def map_constraint_def
  normalize_identifier_def toupper_def pm_new_page_def pm_free_page_def empty_page_def
  sample_db_def tight_env_def roomy_env_def no_table_file_env_def create_u_def create_u_sql_def
  sample_indexes_def sample_catalog_def sample_env_def sample_table_def sample_columns_def
  load_tables_cache_def load_indexes_cache_def get_table_def get_index_def get_table_by_id_def
  get_columns_def read_all_columns_of_def read_all_columns_def read_all_indexes_def
  persist_table_entry_def persist_column_entry_def persist_index_entry_def
  rewrite_tables_page_def rewrite_columns_page_def rewrite_indexes_page_def
  index_entry_less_def column_entry_less_def u32_def Let_def INVALID_PAGE_ID_def

text \<open>
  Before the statement runs, the database has no table \<open>u\<close>, and page 6 of the main file is
  the next page to allocate.
\<close>

lemma sample_db_before:
  "fst (get_table (db_catalog sample_db) ''u'') = None
   \<and> pm_next_page (db_pm sample_db) = 6 \<and> pm_free_list (db_pm sample_db) = []
   \<and> pm_pages (db_pm sample_db) 6 = None"
  by (simp add: ddl_ev)

text \<open>
  The compensation that \<open>create_from_ast\<close> has: where the table file cannot be created, the
  statement fails, the catalog has no row of the table, of its column or of its index
  left, and the root page is on the free list.
\<close>

lemma create_table_file_failure_rolls_back:
  "fst (create_from_ast no_table_file_env sample_db create_u create_u_sql) = Inl IO_ERROR
   \<and> fst (get_table (db_catalog (snd (create_from_ast no_table_file_env sample_db create_u create_u_sql))) ''u'') = None
   \<and> get_columns (db_catalog (snd (create_from_ast no_table_file_env sample_db create_u create_u_sql))) 2 = []
   \<and> map i_name (indexes_page (db_catalog (snd (create_from_ast no_table_file_env sample_db create_u create_u_sql))))
       = [''t_name'', ''t_pk'']
   \<and> pm_free_list (db_pm (snd (create_from_ast no_table_file_env sample_db create_u create_u_sql))) = [6]"
  by (simp add: ddl_ev ev BPlusTree_new_def new_page_def StoreNode_def stored_form_def)

text \<open>
  Claim C4, at a failing input. \<open>CREATE TABLE u (id INTEGER PRIMARY KEY)\<close> runs on a database
  whose index catalog page is full. The catalog rows of \<open>u\<close> are written, then the creation
  of the index \<open>u_pk\<close> throws \<open>PAGE_FULL\<close> out of \<open>create_from_ast\<close>. When the statement
  has failed, the table \<open>u\<close> is in the catalog with its column, its heap root page 6 is
  allocated as a DATA page and is not on the free list: the partially created table
  remains.
\<close>

theorem create_table_pk_index_failure_keeps_table:
  "fst (create_from_ast tight_env sample_db create_u create_u_sql) = Inl PAGE_FULL
   \<and> map_option t_root_page_id
         (fst (get_table (db_catalog (snd (create_from_ast tight_env sample_db create_u create_u_sql))) ''u''))
       = Some 6
   \<and> map (\<lambda>entry. col_name (column entry))
         (get_columns (db_catalog (snd (create_from_ast tight_env sample_db create_u create_u_sql))) 2)
       = [''id'']
   \<and> pm_free_list (db_pm (snd (create_from_ast tight_env sample_db create_u create_u_sql))) = []
   \<and> map_option dp_type (pm_pages (db_pm (snd (create_from_ast tight_env sample_db create_u create_u_sql))) 6)
       = Some DATA"
  by (simp add: ddl_ev)

subsection \<open>TRUNCATE\<close>

text \<open>
  Freeing a page changes its type and the free list; slots, links and the set of pages that
  exist stay.
\<close>

lemma pm_free_page_fields [simp]:
  "map_option dp_slots (pm_pages (pm_free_page pm q) p) = map_option dp_slots (pm_pages pm p)"
  "map_option dp_next (pm_pages (pm_free_page pm q) p) = map_option dp_next (pm_pages pm p)"
  "map_option dp_prev (pm_pages (pm_free_page pm q) p) = map_option dp_prev (pm_pages pm p)"
  "pm_next_page (pm_free_page pm q) = pm_next_page pm"
  "pm_free_list (pm_free_page pm q) = q # pm_free_list pm"
  by (simp_all add: pm_free_page_def option.map_comp comp_def)

lemma pm_free_page_None:
  "pm_pages (pm_free_page pm q) p = None \<longleftrightarrow> pm_pages pm p = None"
  by (simp add: pm_free_page_def)

lemma free_chain_loop_frame:
  "free_chain_loop fuel pm p = Some (r, pm') \<Longrightarrow>
     map_option dp_slots (pm_pages pm' q) = map_option dp_slots (pm_pages pm q)
     \<and> map_option dp_next (pm_pages pm' q) = map_option dp_next (pm_pages pm q)
     \<and> map_option dp_prev (pm_pages pm' q) = map_option dp_prev (pm_pages pm q)
     \<and> pm_next_page pm' = pm_next_page pm"
proof (induction fuel arbitrary: pm p)
  case 0
  then show ?case by simp
next
  case (Suc fuel)
  show ?case
  proof (cases "is_valid_page p")
    case False
    with Suc.prems show ?thesis by simp
  next
    case True
    show ?thesis
    proof (cases "pm_pages pm p")
      case None
      with True Suc.prems show ?thesis by (simp add: pm_fetch_def)
    next
      case (Some pg)
      with True Suc.prems have "free_chain_loop fuel (pm_free_page pm p) (dp_next pg) = Some (r, pm')"
        by (simp add: pm_fetch_def)
      from Suc.IH [OF this] show ?thesis by simp
    qed
  qed
qed

lemma chain_pages_free_page:
  "chain_pages fuel (pm_free_page pm q) p = chain_pages fuel pm p"
proof (induction fuel arbitrary: p)
  case 0
  show ?case by simp
next
  case (Suc fuel)
  have n: "map_option dp_next (pm_pages (pm_free_page pm q) p) = map_option dp_next (pm_pages pm p)"
    by simp
  show ?case
  proof (cases "pm_pages pm p")
    case None
    then have "pm_pages (pm_free_page pm q) p = None" by (simp add: pm_free_page_None)
    with None show ?thesis by simp
  next
    case (Some pg)
    with n obtain pg' where p': "pm_pages (pm_free_page pm q) p = Some pg'" and "dp_next pg' = dp_next pg"
      by (cases "pm_pages (pm_free_page pm q) p") auto
    with Some Suc.IH show ?thesis by simp
  qed
qed

lemma free_chain_loop_chain:
  "chain_pages fuel pm p = Some ps \<Longrightarrow>
     \<exists>pm'. free_chain_loop fuel pm p = Some (Inr (), pm')
           \<and> pm_free_list pm' = rev ps @ pm_free_list pm"
proof (induction fuel arbitrary: pm p ps)
  case 0
  then show ?case by simp
next
  case (Suc fuel)
  show ?case
  proof (cases "is_valid_page p")
    case False
    with Suc.prems show ?thesis by simp
  next
    case True
    with Suc.prems obtain pg ps' where pg: "pm_pages pm p = Some pg"
      and ps': "chain_pages fuel pm (dp_next pg) = Some ps'" and ps: "ps = p # ps'"
      by (auto split: option.splits)
    from ps' have "chain_pages fuel (pm_free_page pm p) (dp_next pg) = Some ps'"
      by (simp add: chain_pages_free_page)
    from Suc.IH [OF this] obtain pm' where
      "free_chain_loop fuel (pm_free_page pm p) (dp_next pg) = Some (Inr (), pm')"
      "pm_free_list pm' = rev ps' @ pm_free_list (pm_free_page pm p)"
      by blast
    with True pg ps show ?thesis by (simp add: pm_fetch_def)
  qed
qed

lemma chain_pages_Suc:
  "chain_pages fuel pm p = Some ps \<Longrightarrow> chain_pages (Suc fuel) pm p = Some ps"
proof (induction fuel arbitrary: p ps)
  case 0
  then show ?case by simp
next
  case (Suc fuel)
  show ?case
  proof (cases "is_valid_page p")
    case False
    with Suc.prems show ?thesis by simp
  next
    case True
    with Suc.prems obtain pg ps' where pg: "pm_pages pm p = Some pg"
      and ps': "chain_pages fuel pm (dp_next pg) = Some ps'" and ps: "ps = p # ps'"
      by (auto split: option.splits)
    from Suc.IH [OF ps'] have "chain_pages (Suc fuel) pm (dp_next pg) = Some ps'" .
    then show ?thesis
      using True pg ps by (subst chain_pages.simps(2)) (simp del: chain_pages.simps)
  qed
qed

lemma chain_pages_update:
  "chain_pages fuel pm p = Some ps \<Longrightarrow> q \<notin> set ps \<Longrightarrow>
     chain_pages fuel (pm\<lparr>pm_pages := (pm_pages pm)(q \<mapsto> x)\<rparr>) p = Some ps"
proof (induction fuel arbitrary: p ps)
  case 0
  then show ?case by simp
next
  case (Suc fuel)
  show ?case
  proof (cases "is_valid_page p")
    case False
    with Suc.prems show ?thesis by simp
  next
    case True
    with Suc.prems(1) obtain pg ps' where pg: "pm_pages pm p = Some pg"
      and ps': "chain_pages fuel pm (dp_next pg) = Some ps'" and ps: "ps = p # ps'"
      by (auto split: option.splits)
    with Suc.prems(2) have "q \<noteq> p" "q \<notin> set ps'" by auto
    with Suc.IH [OF ps'] True pg ps show ?thesis by simp
  qed
qed

lemma find_tail_chain:
  "chain_pages fuel pm p = Some ps \<Longrightarrow> is_valid_page p \<Longrightarrow>
     find_tail fuel pm start p = Some (Inr (last ps))"
proof (induction fuel arbitrary: p ps)
  case 0
  then show ?case by simp
next
  case (Suc fuel)
  from Suc.prems obtain pg ps' where pg: "pm_pages pm p = Some pg"
    and ps': "chain_pages fuel pm (dp_next pg) = Some ps'" and ps: "ps = p # ps'"
    by (auto split: option.splits)
  show ?case
  proof (cases "is_valid_page (dp_next pg)")
    case False
    with ps' have "ps' = []" by (cases fuel) auto
    with False Suc.prems(2) pg ps show ?thesis by (simp add: pm_fetch_def)
  next
    case True
    from Suc.IH [OF ps' True] have "find_tail fuel pm start (dp_next pg) = Some (Inr (last ps'))" .
    moreover from ps' True have "ps' \<noteq> []" by (cases fuel) (auto split: option.splits)
    ultimately show ?thesis using True Suc.prems(2) pg ps by (simp add: pm_fetch_def)
  qed
qed

text \<open>
  \<open>truncate\<close> of the DML executor: what it leaves alone whatever its outcome, and where
  it succeeds.
\<close>

lemma truncate_table_frame:
  assumes "truncate_table fuel db nm = Some (r, db')"
  shows "db_index_files db' = db_index_files db \<and> db_table_files db' = db_table_files db
     \<and> indexes_page (db_catalog db') = indexes_page (db_catalog db)
     \<and> tables_page (db_catalog db') = tables_page (db_catalog db)
     \<and> columns_page (db_catalog db') = columns_page (db_catalog db)"
  using assms
  by (auto simp: truncate_table_def get_table_def load_tables_cache_def Let_def
      split: option.splits sum.splits prod.splits if_splits)

lemma truncate_table_total:
  assumes te: "fst (get_table (db_catalog db) nm) = Some te"
    and root: "pm_pages (db_pm db) (t_root_page_id te) = Some root_pg"
    and ty: "dp_type root_pg = DATA"
    and valid: "is_valid_page (t_root_page_id te)"
    and chain: "chain_pages fuel (db_pm db) (t_root_page_id te) = Some ps"
    and dist: "distinct ps"
  shows "\<exists>db'. truncate_table fuel db nm = Some (Inr (), db')
           \<and> pm_free_list (db_pm db') = rev (tl ps) @ pm_free_list (db_pm db)
           \<and> map_option dp_slots (pm_pages (db_pm db') (t_root_page_id te)) = Some []
           \<and> map_option dp_next (pm_pages (db_pm db') (t_root_page_id te)) = Some INVALID_PAGE_ID
           \<and> heap_scan 2 (db_pm db') (t_root_page_id te) = Some (Inr [])"
proof -
  let ?root = "t_root_page_id te"
  let ?pm = "db_pm db"
  obtain c1 where gt: "get_table (db_catalog db) nm = (Some te, c1)"
    using te by (cases "get_table (db_catalog db) nm") auto
  obtain f where fuel: "fuel = Suc f" using chain by (cases fuel) auto
  from chain valid root fuel obtain ps' where ps': "chain_pages f ?pm (dp_next root_pg) = Some ps'"
    and ps: "ps = ?root # ps'"
    by (auto split: option.splits)
  have tail: "find_tail fuel ?pm ?root ?root = Some (Inr (last ps))"
    by (rule find_tail_chain [OF chain valid])
  have heap: "TableHeap_new fuel ?pm ?root = Some (Inr \<lparr>heap_root = ?root, heap_tail = last ps\<rparr>)"
    using valid root ty tail by (simp add: TableHeap_new_def pm_fetch_def)
  let ?root' = "root_pg\<lparr>dp_next := INVALID_PAGE_ID, dp_prev := INVALID_PAGE_ID, dp_slots := []\<rparr>"
  let ?pm1 = "?pm\<lparr>pm_pages := (pm_pages ?pm)(?root \<mapsto> ?root')\<rparr>"
  from ps dist have "?root \<notin> set ps'" by simp
  with chain_pages_update [OF chain_pages_Suc [OF ps']]
  have "chain_pages fuel ?pm1 (dp_next root_pg) = Some ps'" by (simp add: fuel)
  from free_chain_loop_chain [OF this] obtain pm' where
    loop: "free_chain_loop fuel ?pm1 (dp_next root_pg) = Some (Inr (), pm')"
    and fl: "pm_free_list pm' = rev ps' @ pm_free_list ?pm1" by blast
  from free_chain_loop_frame [OF loop, of ?root]
  have slots: "map_option dp_slots (pm_pages pm' ?root) = Some []"
    and nxt: "map_option dp_next (pm_pages pm' ?root) = Some INVALID_PAGE_ID"
    by simp_all
  have tr: "heap_truncate fuel ?pm \<lparr>heap_root = ?root, heap_tail = last ps\<rparr>
      = Some (Inr (), pm', \<lparr>heap_root = ?root, heap_tail = ?root\<rparr>)"
    using root loop by (simp add: heap_truncate_def pm_fetch_def Let_def)
  have res: "truncate_table fuel db nm = Some (Inr (), db\<lparr>db_catalog := c1, db_pm := pm'\<rparr>)"
    using gt heap tr by (simp add: truncate_table_def Let_def)
  from slots nxt obtain pg where pg: "pm_pages pm' ?root = Some pg" "dp_slots pg = []"
    "dp_next pg = INVALID_PAGE_ID" by (cases "pm_pages pm' ?root") auto
  have scan: "heap_scan 2 pm' ?root = Some (Inr [])"
    using valid pg
    by (simp add: numeral_2_eq_2 pm_fetch_def is_valid_page_def FIRST_PAGE_ID_def INVALID_PAGE_ID_def)
  show ?thesis
    using res fl slots nxt scan ps by simp
qed

text \<open>
  Claim C8. TRUNCATE mutates only the table heap. Whatever the outcome of the statement, the
  index files (the trees with all their entries) and the three catalog pages are what they
  were, so every index of the table keeps its entries, now stale. Where the table exists and
  the page chain of its heap is a finite chain of existing pages without a repeated page,
  the statement succeeds: the root page is reset (no slots, no next page, so that a scan
  of the heap is empty) and the pages of the chain after the root are put on the free
  list.
\<close>

theorem truncate_mutates_heap_only:
  "(truncate_table fuel db nm = Some (r, db')
      \<longrightarrow> db_index_files db' = db_index_files db
          \<and> indexes_page (db_catalog db') = indexes_page (db_catalog db)
          \<and> tables_page (db_catalog db') = tables_page (db_catalog db)
          \<and> columns_page (db_catalog db') = columns_page (db_catalog db)
          \<and> db_table_files db' = db_table_files db)
   \<and> (fst (get_table (db_catalog db) nm) = Some te
        \<and> pm_pages (db_pm db) (t_root_page_id te) = Some root_pg \<and> dp_type root_pg = DATA
        \<and> is_valid_page (t_root_page_id te)
        \<and> chain_pages n (db_pm db) (t_root_page_id te) = Some ps \<and> distinct ps
      \<longrightarrow> (\<exists>db2. truncate_table n db nm = Some (Inr (), db2)
             \<and> pm_free_list (db_pm db2) = rev (tl ps) @ pm_free_list (db_pm db)
             \<and> map_option dp_slots (pm_pages (db_pm db2) (t_root_page_id te)) = Some []
             \<and> map_option dp_next (pm_pages (db_pm db2) (t_root_page_id te)) = Some INVALID_PAGE_ID
             \<and> heap_scan 2 (db_pm db2) (t_root_page_id te) = Some (Inr [])))"
proof (intro conjI impI)
  assume "truncate_table fuel db nm = Some (r, db')"
  from truncate_table_frame [OF this]
  show "db_index_files db' = db_index_files db"
    "indexes_page (db_catalog db') = indexes_page (db_catalog db)"
    "tables_page (db_catalog db') = tables_page (db_catalog db)"
    "columns_page (db_catalog db') = columns_page (db_catalog db)"
    "db_table_files db' = db_table_files db"
    by simp_all
next
  assume "fst (get_table (db_catalog db) nm) = Some te
        \<and> pm_pages (db_pm db) (t_root_page_id te) = Some root_pg \<and> dp_type root_pg = DATA
        \<and> is_valid_page (t_root_page_id te)
        \<and> chain_pages n (db_pm db) (t_root_page_id te) = Some ps \<and> distinct ps"
  then show "\<exists>db2. truncate_table n db nm = Some (Inr (), db2)
             \<and> pm_free_list (db_pm db2) = rev (tl ps) @ pm_free_list (db_pm db)
             \<and> map_option dp_slots (pm_pages (db_pm db2) (t_root_page_id te)) = Some []
             \<and> map_option dp_next (pm_pages (db_pm db2) (t_root_page_id te)) = Some INVALID_PAGE_ID
             \<and> heap_scan 2 (db_pm db2) (t_root_page_id te) = Some (Inr [])"
    using truncate_table_total [of db nm te root_pg n ps] by blast
qed

lemmas heap_ev = two_page_db_def sample_db_def sample_catalog_def sample_table_def
  get_table_def load_tables_cache_def is_valid_page_def FIRST_PAGE_ID_def INVALID_PAGE_ID_def
  pm_fetch_def numeral_2_eq_2 numeral_3_eq_3

text \<open>
  The heap of \<open>t\<close> in \<open>two_page_db\<close> is the chain 5, 6 with one row on each page. After
  TRUNCATE the scan is empty and page 6 is free, and the primary-key index still holds the
  entries of the two rows.
\<close>

theorem truncate_mutates_heap_only_witness:
  "fst (get_table (db_catalog two_page_db) ''t'') = Some sample_table
   \<and> chain_pages 3 (db_pm two_page_db) 5 = Some [5, 6]
   \<and> heap_scan 3 (db_pm two_page_db) 5 = Some (Inr [row_amy, row_bob])
   \<and> map_option fst (truncate_table 3 two_page_db ''t'') = Some (Inr ())
   \<and> pm_free_list (db_pm (snd (the (truncate_table 3 two_page_db ''t'')))) = [6]
   \<and> heap_scan 2 (db_pm (snd (the (truncate_table 3 two_page_db ''t'')))) 5 = Some (Inr [])
   \<and> db_index_files (snd (the (truncate_table 3 two_page_db ''t''))) = db_index_files two_page_db
   \<and> map_option (\<lambda>f. map_option leaf_entries (if_pages f 2))
        (db_index_files (snd (the (truncate_table 3 two_page_db ''t''))) 2)
       = Some (Some [([1, 0, 2, 0, 4, 0, 1, 0, 0, 0], make_record_id (5, 0)),
                     ([1, 0, 2, 0, 4, 0, 2, 0, 0, 0], make_record_id (6, 0))])"
proof -
  have te: "fst (get_table (db_catalog two_page_db) ''t'') = Some sample_table"
    by (simp add: heap_ev)
  have root: "pm_pages (db_pm two_page_db) (t_root_page_id sample_table)
      = Some \<lparr>dp_type = DATA, dp_next = 6, dp_prev = 0, dp_slots = [(row_amy, False)]\<rparr>"
    by (simp add: heap_ev)
  have valid: "is_valid_page (t_root_page_id sample_table)"
    by (simp add: heap_ev)
  have chain: "chain_pages 3 (db_pm two_page_db) 5 = Some [5, 6]"
    by (simp add: heap_ev)
  have scan: "heap_scan 3 (db_pm two_page_db) 5 = Some (Inr [row_amy, row_bob])"
    by (simp add: heap_ev)
  have r5: "t_root_page_id sample_table = 5"
    by (simp add: sample_table_def)
  have hyp: "fst (get_table (db_catalog two_page_db) ''t'') = Some sample_table
        \<and> pm_pages (db_pm two_page_db) (t_root_page_id sample_table)
            = Some \<lparr>dp_type = DATA, dp_next = 6, dp_prev = 0, dp_slots = [(row_amy, False)]\<rparr>
        \<and> dp_type \<lparr>dp_type = DATA, dp_next = 6, dp_prev = 0, dp_slots = [(row_amy, False)]\<rparr> = DATA
        \<and> is_valid_page (t_root_page_id sample_table)
        \<and> chain_pages 3 (db_pm two_page_db) (t_root_page_id sample_table) = Some [5, 6]
        \<and> distinct [5, 6 :: nat]"
    using te root valid chain by (simp add: r5)
  from truncate_mutates_heap_only [of 0 two_page_db "''t''" "Inr ()" two_page_db sample_table
      "\<lparr>dp_type = DATA, dp_next = 6, dp_prev = 0, dp_slots = [(row_amy, False)]\<rparr>" 3 "[5, 6]",
      THEN conjunct2, rule_format, OF hyp]
  obtain db2 where t: "truncate_table 3 two_page_db ''t'' = Some (Inr (), db2)"
    and fl: "pm_free_list (db_pm db2) = rev (tl [5, 6]) @ pm_free_list (db_pm two_page_db)"
    and sc: "heap_scan 2 (db_pm db2) (t_root_page_id sample_table) = Some (Inr [])"
    by blast
  from truncate_mutates_heap_only [of 3 two_page_db "''t''" "Inr ()" db2, THEN conjunct1, rule_format, OF t]
  have files: "db_index_files db2 = db_index_files two_page_db" by simp
  have fl0: "pm_free_list (db_pm two_page_db) = []"
    by (simp add: heap_ev)
  have ix: "map_option (\<lambda>f. map_option leaf_entries (if_pages f 2)) (db_index_files two_page_db 2)
       = Some (Some [([1, 0, 2, 0, 4, 0, 1, 0, 0, 0], make_record_id (5, 0)),
                     ([1, 0, 2, 0, 4, 0, 2, 0, 0, 0], make_record_id (6, 0))])"
    by (simp add: heap_ev MakeLeaf_def)
  show ?thesis
    using te chain scan t fl sc files fl0 ix unfolding r5 by simp
qed

subsection \<open>INSERT into a table with a unique index\<close>

lemmas heap_fuel_unfold =
  heap_insert_loop.simps(2)[of "pred_numeral n" for n, folded numeral_eq_Suc]
  find_tail.simps(2)[of "pred_numeral n" for n, folded numeral_eq_Suc]
  heap_scan.simps(2)[of "pred_numeral n" for n, folded numeral_eq_Suc]

lemmas dml_ev = insert_into_def insert_prepare_def insert_amy_def insert_bob_def int_lit_def str_lit_def
  sample_row_codec_def sample_codec_def roomy_env_def sample_db_def sample_indexes_def
  sample_catalog_def sample_env_def sample_table_def sample_columns_def
  get_table_def get_columns_def get_indexes_def load_tables_cache_def load_indexes_cache_def
  read_all_columns_of_def column_entry_less_def index_entry_less_def
  OpenIndex_def MakeHandle_def file_of_tree_def TableHeap_new_def pm_fetch_def is_valid_page_def
  FIRST_PAGE_ID_def heap_insert_def Page_insert_def append_new_page_def empty_page_def
  encode_row_def encode_field_def type_tag_def build_index_key_def make_record_id_def
  set_index_root_def rewrite_indexes_page_def heap_fuel_unfold amy_db_def row_amy_def

lemma amy_db_reached:
  "insert_into 2 roomy_env sample_row_codec sample_db insert_amy = Some (Inr 1, amy_db)"
  by (simp add: dml_ev ev tree_ev)

text \<open>
  Claim C1 fails as stated. Table \<open>t\<close> holds the row (1, 'amy'), and its primary-key index
  \<open>t_pk\<close> holds the key of 1. \<open>INSERT INTO t VALUES (1, 'bob')\<close> fails with
  \<open>DUPLICATE_KEY\<close>, thrown by the insertion into \<open>t_pk\<close>, and leaves the row (1, 'bob') in
  the heap: a scan of the heap returns one row before the statement and two after it.
\<close>

theorem insert_duplicate_key_counterexample:
  "map_option fst (insert_into 2 roomy_env sample_row_codec amy_db insert_bob) = Some (Inl DUPLICATE_KEY)
   \<and> heap_scan 2 (db_pm amy_db) 5 = Some (Inr [row_amy])
   \<and> map_option (\<lambda>res. heap_scan 2 (db_pm (snd res)) 5)
        (insert_into 2 roomy_env sample_row_codec amy_db insert_bob)
       = Some (Some (Inr [row_amy, [2, 0, 2, 0, 4, 0, 1, 0, 0, 0, 6, 0, 3, 0, 98, 111, 98]]))"
  by (simp add: dml_ev ev tree_ev)

text \<open>
  A unique tree that finds a key on \<open>Search\<close> throws \<open>DUPLICATE_KEY\<close> on \<open>Insert\<close> of
  that key and stays as it is; the loop over the indexes never touches the main file; and a
  row that \<open>TableHeap::insert\<close> has placed is read back from its location.
\<close>

lemma Search_found_Insert_duplicate:
  "Search fuel t pid k = Some (Inr (True, v0)) \<Longrightarrow> unique_flag t \<Longrightarrow>
     InsertRecursive fuel cfg t pid k v = Some (Inl DUPLICATE_KEY, t)"
proof (induction fuel arbitrary: pid)
  case 0
  then show ?case by simp
next
  case (Suc fuel)
  from Suc.prems(1) obtain node where node: "LoadNode t pid = Inr node"
    by (cases "LoadNode t pid") auto
  show ?case
  proof (cases "node_type node = LEAF")
    case True
    with Suc.prems node show ?thesis
      by (auto simp: insert_into_leaf_def Let_def split: if_splits)
  next
    case False
    with Suc.prems(1) node obtain child where child: "child_at node (FindInternalChild node k) = Inr child"
      and s: "Search fuel t child k = Some (Inr (True, v0))"
      by (cases "child_at node (FindInternalChild node k)") auto
    from Suc.IH [OF s Suc.prems(2)] False node child show ?thesis
      by (simp add: Let_def)
  qed
qed

lemma Insert_duplicate:
  "Search fuel t (root_page_id t) k = Some (Inr (True, v0)) \<Longrightarrow> unique_flag t \<Longrightarrow>
     Insert fuel cfg t k v = Some (Inl DUPLICATE_KEY, t)"
  by (simp add: Insert_def Search_found_Insert_duplicate)

lemma index_row_pm:
  "index_row fuel env codec columns vals rid ctxs db = Some (r, db1) \<Longrightarrow> db_pm db1 = db_pm db"
proof (induction ctxs arbitrary: db r db1)
  case Nil
  then show ?case by simp
next
  case (Cons ctx ctxs)
  obtain entry tree where ctx: "ctx = (entry, tree)" by (cases ctx)
  show ?case
  proof (cases "build_index_key codec entry columns vals")
    case (Inl e)
    with Cons.prems ctx show ?thesis by simp
  next
    case (Inr k)
    note k = this
    show ?thesis
    proof (cases "Insert fuel (tree_cfg env) tree k rid")
      case None
      with Cons.prems ctx k show ?thesis by simp
    next
      case (Some res)
      obtain ir tree1 where res: "res = (ir, tree1)" by (cases res)
      let ?db1 = "db\<lparr>db_index_files := (db_index_files db)(index_id entry \<mapsto> file_of_tree tree1)\<rparr>"
      show ?thesis
      proof (cases ir)
        case (Inl e)
        with Cons.prems ctx k Some res show ?thesis by (auto simp: Let_def)
      next
        case (Inr u)
        note ir = this
        obtain sr c1 where sr: "set_index_root (cat_env env) (db_catalog ?db1) (index_id entry)
            (root_page_id tree1) = (sr, c1)" by (cases "set_index_root (cat_env env) (db_catalog ?db1) (index_id entry) (root_page_id tree1)")
        show ?thesis
        proof (cases sr)
          case (Inl e)
          with Cons.prems ctx k Some res ir sr show ?thesis by (auto simp: Let_def)
        next
          case (Inr u2)
          show ?thesis
          proof (cases "index_row fuel env codec columns vals rid ctxs (?db1\<lparr>db_catalog := c1\<rparr>)")
            case None
            with Cons.prems ctx k Some res ir sr Inr show ?thesis by (simp add: Let_def)
          next
            case (Some res2)
            obtain r2 db2 where res2: "res2 = (r2, db2)" by (cases res2)
            from Cons.IH [OF Some [unfolded res2]] have "db_pm db2 = db_pm db" by simp
            with Cons.prems ctx k \<open>Insert fuel (tree_cfg env) tree k rid = Some res\<close> res ir sr Inr Some res2
            show ?thesis by (cases r2) (auto simp: Let_def)
          qed
        qed
      qed
    qed
  qed
qed

lemma Page_insert_read:
  "Page_insert cfg pg data = Some (pg', slot) \<Longrightarrow> Page_read pg' slot = Some data"
  by (auto simp: Page_insert_def Page_read_def Let_def split: if_splits)

lemma append_new_page_read:
  assumes "append_new_page cfg pm heap prev data = (Inr loc, pm', heap')"
  shows "\<exists>pg. pm_pages pm' (fst loc) = Some pg \<and> Page_read pg (snd loc) = Some data"
proof -
  obtain new_id pm1 where np: "pm_new_page pm DATA = (new_id, pm1)" by (cases "pm_new_page pm DATA")
  let ?new_pg = "(empty_page DATA)\<lparr>dp_prev := prev, dp_next := INVALID_PAGE_ID\<rparr>"
  from assms np obtain pg1 slot where ins: "Page_insert cfg ?new_pg data = Some (pg1, slot)"
    by (cases "Page_insert cfg ?new_pg data") (auto simp: append_new_page_def Let_def)
  have rd: "Page_read pg1 slot = Some data" by (rule Page_insert_read [OF ins])
  let ?pm2 = "pm1\<lparr>pm_pages := (pm_pages pm1)(new_id \<mapsto> pg1)\<rparr>"
  from assms np ins obtain prev_pg where pp: "pm_pages ?pm2 prev = Some prev_pg"
    and loc: "loc = (new_id, slot)"
    and pm': "pm' = ?pm2\<lparr>pm_pages := (pm_pages ?pm2)(prev \<mapsto> prev_pg\<lparr>dp_next := new_id\<rparr>)\<rparr>"
    by (auto simp: append_new_page_def Let_def pm_fetch_def split: option.splits)
  show ?thesis
  proof (cases "prev = new_id")
    case True
    with pp have "prev_pg = pg1" by simp
    with True loc pm' rd show ?thesis by (auto simp: Page_read_def split: if_splits)
  next
    case False
    with loc pm' rd show ?thesis by simp
  qed
qed

lemma heap_insert_loop_read:
  "heap_insert_loop fuel cfg pm heap cur data = Some (Inr loc, pm', heap') \<Longrightarrow>
     \<exists>pg. pm_pages pm' (fst loc) = Some pg \<and> Page_read pg (snd loc) = Some data"
proof (induction fuel arbitrary: cur)
  case 0
  then show ?case by simp
next
  case (Suc fuel)
  show ?case
  proof (cases "is_valid_page cur")
    case False
    with Suc.prems show ?thesis by (simp add: append_new_page_read)
  next
    case True
    with Suc.prems obtain pg where pg: "pm_pages pm cur = Some pg"
      by (cases "pm_pages pm cur") (auto simp: pm_fetch_def)
    show ?thesis
    proof (cases "Page_insert cfg pg data")
      case (Some res)
      obtain pg1 slot where res: "res = (pg1, slot)" by (cases res)
      from Some res have "Page_read pg1 slot = Some data" by (simp add: Page_insert_read)
      with Suc.prems True pg Some res show ?thesis by (auto simp: pm_fetch_def)
    next
      case None
      show ?thesis
      proof (cases "is_valid_page (dp_next pg)")
        case True
        with Suc.prems \<open>is_valid_page cur\<close> pg None show ?thesis
          using Suc.IH by (simp add: pm_fetch_def)
      next
        case False
        with Suc.prems \<open>is_valid_page cur\<close> pg None show ?thesis
          by (simp add: pm_fetch_def append_new_page_read)
      qed
    qed
  qed
qed

lemma heap_insert_read:
  assumes "heap_insert fuel cfg pm heap data = Some (Inr loc, pm', heap')"
      and "is_valid_page (fst loc)"
  shows "heap_read pm' loc = Inr (Some data)"
proof -
  from assms(1) have "heap_insert_loop fuel cfg pm heap (heap_tail heap) data = Some (Inr loc, pm', heap')"
    by (simp add: heap_insert_def split: if_splits)
  from heap_insert_loop_read [OF this] assms(2) show ?thesis
    by (auto simp: heap_read_def pm_fetch_def)
qed

text \<open>
  \<open>DUPLICATE_KEY\<close> has one source in \<open>Insert\<close>: the check of the leaf, before any page is
  written. Every other exception of \<open>Insert\<close> carries another code.
\<close>

lemma serialize_leaf_entries_err:
  "serialize_leaf_entries cfg at es m = Inl e \<Longrightarrow> e = INVALID_ARGUMENT"
  by (induction cfg at es m rule: serialize_leaf_entries.induct) (auto split: if_splits)

lemma check_internal_entries_err:
  "check_internal_entries cfg es = Some e \<Longrightarrow> e = INVALID_ARGUMENT"
  by (induction cfg es rule: check_internal_entries.induct) (auto split: if_splits)

lemma serialize_keys_err:
  "serialize_keys cfg pos offs p ks m = Inl e \<Longrightarrow> e = RECORD_TOO_LARGE"
  by (induction cfg pos offs p ks m rule: serialize_keys.induct) (auto simp: Let_def split: if_splits)

lemma Serialize_err:
  "Serialize cfg n = Inl e \<Longrightarrow> e = INVALID_ARGUMENT \<or> e = RECORD_TOO_LARGE"
  unfolding Serialize_def Let_def
  by (auto split: if_splits sum.splits option.splits
      dest: serialize_leaf_entries_err check_internal_entries_err serialize_keys_err)

lemma StoreNode_err: "StoreNode cfg t n = Inl e \<Longrightarrow> e \<noteq> DUPLICATE_KEY"
  by (auto simp: StoreNode_def split: sum.splits dest: Serialize_err)

lemma LoadNode_err: "LoadNode t pid = Inl e \<Longrightarrow> e \<noteq> DUPLICATE_KEY"
  by (auto simp: LoadNode_def split: option.splits)

lemma set_parents_err: "set_parents cfg t parent cs = (Inl e, t') \<Longrightarrow> e \<noteq> DUPLICATE_KEY"
proof (induction cs arbitrary: t)
  case Nil
  then show ?case by simp
next
  case (Cons c cs)
  then show ?case
    by (auto split: sum.splits dest: LoadNode_err StoreNode_err)
qed

lemma SplitInternal_err: "SplitInternal node new_node = Inl e \<Longrightarrow> e \<noteq> DUPLICATE_KEY"
  by (auto simp: SplitInternal_def Let_def split: if_splits)

lemma insert_into_internal_err:
  "insert_into_internal cfg t node ci promoted = (Inl e, t') \<Longrightarrow> e \<noteq> DUPLICATE_KEY"
  unfolding insert_into_internal_def Let_def
  by (auto split: option.splits sum.splits prod.splits if_splits
      dest: StoreNode_err set_parents_err SplitInternal_err)

lemma insert_into_leaf_duplicate:
  "insert_into_leaf cfg t node k v = (Inl DUPLICATE_KEY, t') \<Longrightarrow>
     t' = t \<and> unique_flag t \<and> FindLeafIndex node k < length (leaf_entries node)
     \<and> CompareKeys (fst (leaf_entries node ! FindLeafIndex node k)) k = 0"
  unfolding insert_into_leaf_def Let_def
  by (auto split: sum.splits prod.splits if_splits dest: StoreNode_err LoadNode_err)

lemma InsertRecursive_duplicate:
  "InsertRecursive fuel cfg t pid k v = Some (Inl DUPLICATE_KEY, t') \<Longrightarrow>
     t' = t \<and> unique_flag t \<and> (\<exists>v0. Search fuel t pid k = Some (Inr (True, v0)))"
proof (induction fuel arbitrary: pid)
  case 0
  then show ?case by simp
next
  case (Suc fuel)
  from Suc.prems obtain node where node: "LoadNode t pid = Inr node"
    by (cases "LoadNode t pid") (auto dest: LoadNode_err)
  show ?case
  proof (cases "node_type node = LEAF")
    case True
    with Suc.prems node have "insert_into_leaf cfg t node k v = (Inl DUPLICATE_KEY, t')" by simp
    from insert_into_leaf_duplicate [OF this] True node show ?thesis
      by (simp add: Let_def)
  next
    case False
    from Suc.prems node False obtain child where child: "child_at node (FindInternalChild node k) = Inr child"
      by (cases "child_at node (FindInternalChild node k)")
         (auto simp: Let_def child_at_def split: if_splits)
    from Suc.prems node False child have
      "InsertRecursive fuel cfg t child k v = Some (Inl DUPLICATE_KEY, t')"
      by (auto simp: Let_def split: option.splits sum.splits prod.splits dest: insert_into_internal_err)
    from Suc.IH [OF this] node False child show ?thesis by simp
  qed
qed

lemma Insert_duplicate_source:
  "Insert fuel cfg t k v = Some (Inl DUPLICATE_KEY, t') \<Longrightarrow>
     t' = t \<and> unique_flag t \<and> (\<exists>v0. Search fuel t (root_page_id t) k = Some (Inr (True, v0)))"
proof -
  assume a: "Insert fuel cfg t k v = Some (Inl DUPLICATE_KEY, t')"
  then have "InsertRecursive fuel cfg t (root_page_id t) k v = Some (Inl DUPLICATE_KEY, t')"
    unfolding Insert_def Let_def new_page_def
    by (auto split: option.splits sum.splits prod.splits dest: StoreNode_err LoadNode_err)
  then show ?thesis by (rule InsertRecursive_duplicate)
qed

lemma rewrite_page_err: "rewrite_page fits pg es = (Inl e, pg') \<Longrightarrow> e = PAGE_FULL"
  by (induction es arbitrary: pg) (auto split: if_splits)

lemma set_index_root_err: "set_index_root cenv c iid root = (Inl e, c') \<Longrightarrow> e \<noteq> DUPLICATE_KEY"
  unfolding set_index_root_def Let_def rewrite_indexes_page_def
  by (auto split: option.splits prod.splits dest: rewrite_page_err)

lemma build_index_key_err:
  "build_index_key codec entry columns vals = Inl e \<Longrightarrow>
   \<forall>cols vs. encode_values codec cols vs \<noteq> Inl DUPLICATE_KEY \<Longrightarrow> e \<noteq> DUPLICATE_KEY"
proof -
  have kp: "\<And>cids e. key_parts columns vals cids = Inl e \<Longrightarrow> e = INVALID_ARGUMENT"
  proof -
    fix cids e show "key_parts columns vals cids = Inl e \<Longrightarrow> e = INVALID_ARGUMENT"
      by (induction cids arbitrary: e) (auto split: option.splits sum.splits prod.splits)
  qed
  assume "build_index_key codec entry columns vals = Inl e"
    and "\<forall>cols vs. encode_values codec cols vs \<noteq> Inl DUPLICATE_KEY"
  then show ?thesis
    by (auto simp: build_index_key_def split: sum.splits prod.splits dest: kp)
qed

text \<open>
  Where the loop over the indexes ends with \<open>DUPLICATE_KEY\<close>, a unique index of the table
  holds the key of the row already; that index is in its file as it was opened.
\<close>

lemma index_row_duplicate:
  assumes "index_row fuel env codec columns vals rid ctxs db = Some (Inl DUPLICATE_KEY, db2)"
    and enc: "\<forall>cols vs. encode_values codec cols vs \<noteq> Inl DUPLICATE_KEY"
  shows "\<exists>cpre entry tree cpost k v0.
           ctxs = cpre @ (entry, tree) # cpost \<and> unique_flag tree
           \<and> build_index_key codec entry columns vals = Inr k
           \<and> Search fuel tree (root_page_id tree) k = Some (Inr (True, v0))
           \<and> db_index_files db2 (index_id entry) = Some (file_of_tree tree)"
  using assms(1)
proof (induction ctxs arbitrary: db)
  case Nil
  then show ?case by simp
next
  case (Cons ctx ctxs)
  obtain entry tree where ctx: "ctx = (entry, tree)" by (cases ctx)
  from Cons.prems ctx obtain k where k: "build_index_key codec entry columns vals = Inr k"
    by (cases "build_index_key codec entry columns vals") (auto dest: build_index_key_err [OF _ enc])
  from Cons.prems ctx k obtain ir tree1 where ins: "Insert fuel (tree_cfg env) tree k rid = Some (ir, tree1)"
    by (cases "Insert fuel (tree_cfg env) tree k rid") auto
  let ?db1 = "db\<lparr>db_index_files := (db_index_files db)(index_id entry \<mapsto> file_of_tree tree1)\<rparr>"
  show ?case
  proof (cases ir)
    case (Inl e)
    with Cons.prems ctx k ins have e: "e = DUPLICATE_KEY" and db2: "db2 = ?db1"
      by (auto simp: Let_def)
    from Insert_duplicate_source [OF ins [unfolded Inl e]] obtain v0 where
      "tree1 = tree" "unique_flag tree" "Search fuel tree (root_page_id tree) k = Some (Inr (True, v0))"
      by blast
    with k db2 ctx show ?thesis
      by (intro exI [of _ "[]"] exI [of _ entry] exI [of _ tree] exI [of _ ctxs] exI [of _ k] exI [of _ v0])
         simp
  next
    case (Inr u)
    obtain sr c1 where sr: "set_index_root (cat_env env) (db_catalog ?db1) (index_id entry)
        (root_page_id tree1) = (sr, c1)"
      by (cases "set_index_root (cat_env env) (db_catalog ?db1) (index_id entry) (root_page_id tree1)")
    from Cons.prems ctx k ins Inr sr obtain u2 where sru: "sr = Inr u2"
      by (cases sr) (auto simp: Let_def dest: set_index_root_err)
    from Cons.prems ctx k ins Inr sr sru have
      "index_row fuel env codec columns vals rid ctxs (?db1\<lparr>db_catalog := c1\<rparr>) = Some (Inl DUPLICATE_KEY, db2)"
      by (auto simp: Let_def split: option.splits sum.splits prod.splits)
    from Cons.IH [OF this] obtain cpre entry' tree' cpost k' v0 where
      "ctxs = cpre @ (entry', tree') # cpost" "unique_flag tree'"
      "build_index_key codec entry' columns vals = Inr k'"
      "Search fuel tree' (root_page_id tree') k' = Some (Inr (True, v0))"
      "db_index_files db2 (index_id entry') = Some (file_of_tree tree')"
      by blast
    with ctx show ?thesis
      by (intro exI [of _ "ctx # cpre"] exI [of _ entry'] exI [of _ tree'] exI [of _ cpost]
            exI [of _ k'] exI [of _ v0]) simp
  qed
qed

text \<open>The loop over the rows, run on a list of rows in two parts.\<close>

lemma insert_rows_append:
  "insert_rows fuel env codec columns names (before @ rest) inserted ctxs heap db =
     (case insert_rows fuel env codec columns names before inserted ctxs heap db of
        None \<Rightarrow> None
      | Some (Inl e, db1) \<Rightarrow> Some (Inl e, db1)
      | Some (Inr (n, ctxs1, heap1), db1) \<Rightarrow>
          insert_rows fuel env codec columns names rest n ctxs1 heap1 db1)"
proof (induction before arbitrary: inserted ctxs heap db)
  case Nil
  show ?case by simp
next
  case (Cons row before)
  show ?case
    by (simp add: Cons.IH split: sum.splits option.splits prod.splits)
qed

text \<open>
  Claim C1, amended. In \<open>insert_into\<close> every row goes into the heap before its key goes
  into the indexes, and nothing undoes the heap insert. Take any row of the statement, the
  rows before it inserted and indexed. If the row is placed in the heap and the insertion
  of its key into the indexes then fails with \<open>DUPLICATE_KEY\<close>, the statement fails with
  \<open>DUPLICATE_KEY\<close>; the main file is left as \<open>TableHeap::insert\<close> left it, so that the row
  is read back from the heap at its location; and the index that rejected the key is a
  unique index that held the key already and is in its file as it was before the row: it
  has no entry for the row. (The encoder of index keys is a parameter; it is taken not to
  throw \<open>DUPLICATE_KEY\<close> itself.)
\<close>

theorem insert_duplicate_key_keeps_heap_row:
  "insert_prepare fuel env db stmt = Some (Inr (columns, column_names, ctxs, heap), db0)
     \<and> ins_rows stmt = before @ row_values # rest
     \<and> insert_rows fuel env codec columns column_names before 0 ctxs heap db0
         = Some (Inr (n, ctxs1, heap1), db1)
     \<and> length row_values = length column_names
     \<and> encode_row (rec_codec codec) columns row_values column_names = Inr data
     \<and> decode_row_values codec columns data = Inr decoded
     \<and> heap_insert fuel (tree_cfg env) (db_pm db1) heap1 data = Some (Inr loc, pm1, heap2)
     \<and> index_row fuel env codec columns decoded (make_record_id loc) ctxs1 (db1\<lparr>db_pm := pm1\<rparr>)
         = Some (Inl DUPLICATE_KEY, db2)
     \<and> (\<forall>cols vs. encode_values codec cols vs \<noteq> Inl DUPLICATE_KEY)
   \<longrightarrow> insert_into fuel env codec db stmt = Some (Inl DUPLICATE_KEY, db2)
       \<and> db_pm db2 = pm1
       \<and> (is_valid_page (fst loc) \<longrightarrow> heap_read (db_pm db2) loc = Inr (Some data))
       \<and> (\<exists>cpre entry tree cpost k v0.
             ctxs1 = cpre @ (entry, tree) # cpost \<and> unique_flag tree
             \<and> build_index_key codec entry columns decoded = Inr k
             \<and> Search fuel tree (root_page_id tree) k = Some (Inr (True, v0))
             \<and> db_index_files db2 (index_id entry) = Some (file_of_tree tree))"
proof (intro impI)
  assume h: "insert_prepare fuel env db stmt = Some (Inr (columns, column_names, ctxs, heap), db0)
     \<and> ins_rows stmt = before @ row_values # rest
     \<and> insert_rows fuel env codec columns column_names before 0 ctxs heap db0
         = Some (Inr (n, ctxs1, heap1), db1)
     \<and> length row_values = length column_names
     \<and> encode_row (rec_codec codec) columns row_values column_names = Inr data
     \<and> decode_row_values codec columns data = Inr decoded
     \<and> heap_insert fuel (tree_cfg env) (db_pm db1) heap1 data = Some (Inr loc, pm1, heap2)
     \<and> index_row fuel env codec columns decoded (make_record_id loc) ctxs1 (db1\<lparr>db_pm := pm1\<rparr>)
         = Some (Inl DUPLICATE_KEY, db2)
     \<and> (\<forall>cols vs. encode_values codec cols vs \<noteq> Inl DUPLICATE_KEY)"
  then have ix: "index_row fuel env codec columns decoded (make_record_id loc) ctxs1 (db1\<lparr>db_pm := pm1\<rparr>)
         = Some (Inl DUPLICATE_KEY, db2)"
    and enc: "\<forall>cols vs. encode_values codec cols vs \<noteq> Inl DUPLICATE_KEY"
    and hi: "heap_insert fuel (tree_cfg env) (db_pm db1) heap1 data = Some (Inr loc, pm1, heap2)"
    by simp_all
  from index_row_pm [OF ix] have pm: "db_pm db2 = pm1" by simp
  from h ix have row: "insert_rows fuel env codec columns column_names (row_values # rest) n ctxs1 heap1 db1
      = Some (Inl DUPLICATE_KEY, db2)"
    by simp
  from h have "insert_rows fuel env codec columns column_names (ins_rows stmt) 0 ctxs heap db0
      = Some (Inl DUPLICATE_KEY, db2)"
    by (simp add: insert_rows_append row del: insert_rows.simps)
  with h have res: "insert_into fuel env codec db stmt = Some (Inl DUPLICATE_KEY, db2)"
    by (simp add: insert_into_def)
  have rd: "is_valid_page (fst loc) \<longrightarrow> heap_read (db_pm db2) loc = Inr (Some data)"
    using heap_insert_read [OF hi] pm by simp
  from res pm rd index_row_duplicate [OF ix enc]
  show "insert_into fuel env codec db stmt = Some (Inl DUPLICATE_KEY, db2)
       \<and> db_pm db2 = pm1
       \<and> (is_valid_page (fst loc) \<longrightarrow> heap_read (db_pm db2) loc = Inr (Some data))
       \<and> (\<exists>cpre entry tree cpost k v0.
             ctxs1 = cpre @ (entry, tree) # cpost \<and> unique_flag tree
             \<and> build_index_key codec entry columns decoded = Inr k
             \<and> Search fuel tree (root_page_id tree) k = Some (Inr (True, v0))
             \<and> db_index_files db2 (index_id entry) = Some (file_of_tree tree))"
    by simp
qed

lemmas dml_ev2 = dml_ev insert_cat_bob_def

lemma prepare_cat_bob:
  "\<exists>ctxs db0 ctxs1 db1 pm1 heap2 db2.
     insert_prepare 2 roomy_env amy_db insert_cat_bob
       = Some (Inr (sample_columns, [''id'', ''name''], ctxs, \<lparr>heap_root = 5, heap_tail = 5\<rparr>), db0)
     \<and> insert_rows 2 roomy_env sample_row_codec sample_columns [''id'', ''name'']
          [[int_lit ''2'', str_lit ''cat'']] 0 ctxs \<lparr>heap_root = 5, heap_tail = 5\<rparr> db0
         = Some (Inr (1, ctxs1, \<lparr>heap_root = 5, heap_tail = 5\<rparr>), db1)
     \<and> heap_insert 2 (tree_cfg roomy_env) (db_pm db1) \<lparr>heap_root = 5, heap_tail = 5\<rparr>
          [2, 0, 2, 0, 4, 0, 1, 0, 0, 0, 6, 0, 3, 0, 98, 111, 98]
         = Some (Inr (5, 2), pm1, heap2)
     \<and> index_row 2 roomy_env sample_row_codec sample_columns
          [[2, 0, 4, 0, 1, 0, 0, 0], [6, 0, 3, 0, 98, 111, 98]] (make_record_id (5, 2)) ctxs1
          (db1\<lparr>db_pm := pm1\<rparr>) = Some (Inl DUPLICATE_KEY, db2)"
  by (simp add: dml_ev2 ev tree_ev)

text \<open>
  \<open>INSERT INTO t VALUES (2, 'cat'), (1, 'bob')\<close> on \<open>amy_db\<close>: the first row is inserted
  and indexed, the second goes to slot 2 of page 5 and its key 1 is rejected by \<open>t_pk\<close>.
  After the failed statement the heap holds three rows, the third at a location that was
  empty before, and \<open>t_pk\<close> holds the keys of the first two only.
\<close>

theorem insert_duplicate_key_keeps_heap_row_witness:
  "map_option fst (insert_into 2 roomy_env sample_row_codec amy_db insert_cat_bob) = Some (Inl DUPLICATE_KEY)
   \<and> heap_read (db_pm amy_db) (5, 2) = Inr None
   \<and> map_option (\<lambda>res. heap_read (db_pm (snd res)) (5, 2))
        (insert_into 2 roomy_env sample_row_codec amy_db insert_cat_bob)
       = Some (Inr (Some [2, 0, 2, 0, 4, 0, 1, 0, 0, 0, 6, 0, 3, 0, 98, 111, 98]))
   \<and> map_option (\<lambda>res. heap_scan 2 (db_pm (snd res)) 5)
        (insert_into 2 roomy_env sample_row_codec amy_db insert_cat_bob)
       = Some (Some (Inr [row_amy,
                          [2, 0, 2, 0, 4, 0, 2, 0, 0, 0, 6, 0, 3, 0, 99, 97, 116],
                          [2, 0, 2, 0, 4, 0, 1, 0, 0, 0, 6, 0, 3, 0, 98, 111, 98]]))
   \<and> map_option (\<lambda>res. map_option (\<lambda>f. map_option leaf_entries (if_pages f 2)) (db_index_files (snd res) 2))
        (insert_into 2 roomy_env sample_row_codec amy_db insert_cat_bob)
       = Some (Some (Some [([1, 0, 2, 0, 4, 0, 1, 0, 0, 0], make_record_id (5, 0)),
                           ([1, 0, 2, 0, 4, 0, 2, 0, 0, 0], make_record_id (5, 1))]))"
proof -
  let ?data = "[2, 0, 2, 0, 4, 0, 1, 0, 0, 0, 6, 0, 3, 0, 98, 111, 98] :: 8 word list"
  let ?decoded = "[[2, 0, 4, 0, 1, 0, 0, 0], [6, 0, 3, 0, 98, 111, 98]] :: 8 word list list"
  let ?heap = "\<lparr>heap_root = 5, heap_tail = 5\<rparr>"
  from prepare_cat_bob obtain ctxs db0 ctxs1 db1 pm1 heap2 db2 where
    prep: "insert_prepare 2 roomy_env amy_db insert_cat_bob
       = Some (Inr (sample_columns, [''id'', ''name''], ctxs, ?heap), db0)"
    and pre: "insert_rows 2 roomy_env sample_row_codec sample_columns [''id'', ''name'']
          [[int_lit ''2'', str_lit ''cat'']] 0 ctxs ?heap db0 = Some (Inr (1, ctxs1, ?heap), db1)"
    and hi: "heap_insert 2 (tree_cfg roomy_env) (db_pm db1) ?heap ?data = Some (Inr (5, 2), pm1, heap2)"
    and ix: "index_row 2 roomy_env sample_row_codec sample_columns ?decoded (make_record_id (5, 2)) ctxs1
          (db1\<lparr>db_pm := pm1\<rparr>) = Some (Inl DUPLICATE_KEY, db2)"
    by blast
  have rows: "ins_rows insert_cat_bob = [[int_lit ''2'', str_lit ''cat'']] @ [int_lit ''1'', str_lit ''bob''] # []"
    by (simp add: insert_cat_bob_def)
  have enc: "encode_row (rec_codec sample_row_codec) sample_columns [int_lit ''1'', str_lit ''bob'']
      [''id'', ''name''] = Inr ?data"
    by (simp add: dml_ev ev)
  have dec: "decode_row_values sample_row_codec sample_columns ?data = Inr ?decoded"
    by (simp add: dml_ev ev)
  have nodup: "\<forall>cols vs. encode_values sample_row_codec cols vs \<noteq> Inl DUPLICATE_KEY"
    by (simp add: sample_row_codec_def)
  have before: "heap_read (db_pm amy_db) (5, 2) = Inr None"
    by (simp add: heap_read_def Page_read_def dml_ev)
  have valid: "is_valid_page (fst (5 :: nat, 2 :: nat))"
    by (simp add: is_valid_page_def FIRST_PAGE_ID_def)
  have hyp: "insert_prepare 2 roomy_env amy_db insert_cat_bob
        = Some (Inr (sample_columns, [''id'', ''name''], ctxs, ?heap), db0)
     \<and> ins_rows insert_cat_bob = [[int_lit ''2'', str_lit ''cat'']] @ [int_lit ''1'', str_lit ''bob''] # []
     \<and> insert_rows 2 roomy_env sample_row_codec sample_columns [''id'', ''name'']
          [[int_lit ''2'', str_lit ''cat'']] 0 ctxs ?heap db0 = Some (Inr (1, ctxs1, ?heap), db1)
     \<and> length [int_lit ''1'', str_lit ''bob''] = length [''id'', ''name'']
     \<and> encode_row (rec_codec sample_row_codec) sample_columns [int_lit ''1'', str_lit ''bob'']
          [''id'', ''name''] = Inr ?data
     \<and> decode_row_values sample_row_codec sample_columns ?data = Inr ?decoded
     \<and> heap_insert 2 (tree_cfg roomy_env) (db_pm db1) ?heap ?data = Some (Inr (5, 2), pm1, heap2)
     \<and> index_row 2 roomy_env sample_row_codec sample_columns ?decoded (make_record_id (5, 2)) ctxs1
          (db1\<lparr>db_pm := pm1\<rparr>) = Some (Inl DUPLICATE_KEY, db2)
     \<and> (\<forall>cols vs. encode_values sample_row_codec cols vs \<noteq> Inl DUPLICATE_KEY)"
    using prep rows pre enc dec hi ix nodup by simp
  from insert_duplicate_key_keeps_heap_row [where fuel = 2 and env = roomy_env and db = amy_db
      and stmt = insert_cat_bob and columns = sample_columns and column_names = "[''id'', ''name'']"
      and ctxs = ctxs and heap = ?heap and ?db0.0 = db0
      and before = "[[int_lit ''2'', str_lit ''cat'']]"
      and row_values = "[int_lit ''1'', str_lit ''bob'']" and rest = "[]"
      and codec = sample_row_codec and n = 1 and ?ctxs1.0 = ctxs1 and ?heap1.0 = ?heap and ?db1.0 = db1
      and data = ?data and decoded = ?decoded and loc = "(5, 2)"
      and ?pm1.0 = pm1 and ?heap2.0 = heap2 and ?db2.0 = db2, rule_format, OF hyp]
  have r: "insert_into 2 roomy_env sample_row_codec amy_db insert_cat_bob = Some (Inl DUPLICATE_KEY, db2)"
    and rd: "heap_read (db_pm db2) (5, 2) = Inr (Some ?data)"
    using valid by blast+
  have sc: "map_option (\<lambda>res. heap_scan 2 (db_pm (snd res)) 5)
        (insert_into 2 roomy_env sample_row_codec amy_db insert_cat_bob)
       = Some (Some (Inr [row_amy,
                          [2, 0, 2, 0, 4, 0, 2, 0, 0, 0, 6, 0, 3, 0, 99, 97, 116],
                          [2, 0, 2, 0, 4, 0, 1, 0, 0, 0, 6, 0, 3, 0, 98, 111, 98]]))"
    by (simp add: dml_ev2 ev tree_ev)
  have idx: "map_option (\<lambda>res. map_option (\<lambda>f. map_option leaf_entries (if_pages f 2)) (db_index_files (snd res) 2))
        (insert_into 2 roomy_env sample_row_codec amy_db insert_cat_bob)
       = Some (Some (Some [([1, 0, 2, 0, 4, 0, 1, 0, 0, 0], make_record_id (5, 0)),
                           ([1, 0, 2, 0, 4, 0, 2, 0, 0, 0], make_record_id (5, 1))]))"
    by (simp add: dml_ev2 ev tree_ev)
  show ?thesis
    using r rd before sc idx by simp
qed

end
